theory Spec2Isabelle
  imports Main "HOL-Library.Sublist" "HOL-Library.Multiset" "HOL-Library.Extended_Nat"
begin

section \<open>JavaScript strings\<close>

text \<open>
  A JavaScript string is a sequence of UTF-16 code units, and the regular expressions of
  \<^verbatim>\<open>SnippetCompiler.ts\<close> (written without the \<^verbatim>\<open>u\<close> flag) work on code units. A string is
  therefore modelled as a list of code units, each a natural number; \<open>js\<close> turns an ASCII
  literal into such a list. The \<^verbatim>\<open>bigint\<close> of \<^verbatim>\<open>process.hrtime.bigint()\<close> is an integer of
  any size and the \<^verbatim>\<open>index\<close> of a block is an array index plus one, so both are natural
  numbers. A line number is a \<^verbatim>\<open>number\<close> that \<^verbatim>\<open>parseInt\<close> made from decimal digits: a
  double, which is a natural number or \<^verbatim>\<open>Infinity\<close>, modelled as an \<open>enat\<close>.
\<close>

type_synonym jsstring = "nat list"

definition js :: "string \<Rightarrow> jsstring" where
  "js s = map of_char s"

definition isDigit :: "nat \<Rightarrow> bool" where
  "isDigit c \<longleftrightarrow> 48 \<le> c \<and> c \<le> 57"

text \<open>The code units that \<^verbatim>\<open>.\<close> does not match: LF, CR, U+2028 and U+2029.\<close>

definition isLineTerminator :: "nat \<Rightarrow> bool" where
  "isLineTerminator c \<longleftrightarrow> c = 10 \<or> c = 13 \<or> c = 8232 \<or> c = 8233"

text \<open>\<^verbatim>\<open>toString()\<close> of a non-negative integer: its decimal digits, most significant first.\<close>

fun toString :: "nat \<Rightarrow> jsstring" where
  "toString n = (if n < 10 then [48 + n] else toString (n div 10) @ [48 + n mod 10])"

declare toString.simps [simp del]

text \<open>
  The \<^verbatim>\<open>number\<close> for a natural number: the number itself below \<open>2^53\<close>, and from there on
  the nearest double, which has 53 significant bits; of two doubles equally near the one with
  an even significand is taken, and what would need an exponent above 1023 is \<^verbatim>\<open>Infinity\<close>.
  \<open>bitLength n\<close> is the number of bits of \<open>n\<close>.
\<close>

fun bitLength :: "nat \<Rightarrow> nat" where
  "bitLength n = (if n = 0 then 0 else Suc (bitLength (n div 2)))"

declare bitLength.simps [simp del]

definition numberValue :: "nat \<Rightarrow> enat" where
  "numberValue n =
     (if n < 2 ^ 53 then enat n
      else
        (let e = bitLength n - 53;
             q = n div 2 ^ e;
             r = n mod 2 ^ e;
             m = (if 2 ^ e < 2 * r \<or> (2 * r = 2 ^ e \<and> odd q) then q + 1 else q)
         in if 2 ^ 1024 \<le> m * 2 ^ e then \<infinity> else enat (m * 2 ^ e)))"

text \<open>
  \<^verbatim>\<open>parseInt(s, 10)\<close> for the arguments it gets in \<^verbatim>\<open>testCodeCompilation\<close>: \<^verbatim>\<open>undefined\<close>
  (\<open>None\<close>) gives \<^verbatim>\<open>NaN\<close> (\<open>None\<close>), and a string gives the \<^verbatim>\<open>number\<close> for the value of its
  leading decimal digits, \<^verbatim>\<open>NaN\<close> when there is none.
\<close>

definition digitsValue :: "jsstring \<Rightarrow> nat" where
  "digitsValue ds = foldl (\<lambda>a c. 10 * a + (c - 48)) 0 ds"

definition parseInt :: "jsstring option \<Rightarrow> enat option" where
  "parseInt v =
     (case v of
        None \<Rightarrow> None
      | Some s \<Rightarrow> (if takeWhile isDigit s = [] then None
                  else Some (numberValue (digitsValue (takeWhile isDigit s)))))"

fun stripPrefix :: "'a list \<Rightarrow> 'a list \<Rightarrow> 'a list option" where
  "stripPrefix [] s = Some s"
| "stripPrefix (p # ps) [] = None"
| "stripPrefix (p # ps) (c # cs) = (if p = c then stripPrefix ps cs else None)"

text \<open>
  \<^verbatim>\<open>s.split(sep)\<close> for a separator of one code unit: the pieces between the separators;
  the empty string gives one empty piece.
\<close>

fun splitOn :: "nat \<Rightarrow> jsstring \<Rightarrow> jsstring list" where
  "splitOn sep [] = [[]]"
| "splitOn sep (c # cs) =
     (if c = sep then [] # splitOn sep cs
      else (case splitOn sep cs of
              [] \<Rightarrow> [[c]]
            | l # ls \<Rightarrow> (c # l) # ls))"

section \<open>The temporary-file pattern and its replacement\<close>

text \<open>
  \<^verbatim>\<open>COMPILED_DOCS_FILE_PREFIX_PATTERN = /(.*)\/compiled-docs\/block-\d+\.ts/g\<close>.

  \<open>tempFileTail s\<close> matches the part after the group,
  \<^verbatim>\<open>\/compiled-docs\/block-\d+\.ts\<close>, at the head of \<open>s\<close> and returns the matched text and the
  rest. \<^verbatim>\<open>\d+\<close> is greedy and is followed by a character that is no digit, so it takes every
  digit there is.
\<close>

definition tempFileTail :: "jsstring \<Rightarrow> (jsstring \<times> jsstring) option" where
  "tempFileTail s =
     (case stripPrefix (js ''/compiled-docs/block-'') s of
        None \<Rightarrow> None
      | Some r \<Rightarrow>
          (if takeWhile isDigit r = [] then None
           else (case stripPrefix (js ''.ts'') (dropWhile isDigit r) of
                   None \<Rightarrow> None
                 | Some rest \<Rightarrow>
                     Some (js ''/compiled-docs/block-'' @ takeWhile isDigit r @ js ''.ts'', rest))))"

text \<open>
  The whole pattern at the head of \<open>s\<close>: the greedy \<^verbatim>\<open>(.*)\<close> first tries to take one more
  code unit (any but a line terminator) and falls back to the tail where that fails. The result
  is the text of group 1, the text matched by the tail and the rest of the string.
\<close>

fun prefixPattern :: "jsstring \<Rightarrow> (jsstring \<times> jsstring \<times> jsstring) option" where
  "prefixPattern [] = None"
| "prefixPattern (c # cs) =
     (case (if isLineTerminator c then None else prefixPattern cs) of
        Some (cap, t, r) \<Rightarrow> Some (c # cap, t, r)
      | None \<Rightarrow>
          (case tempFileTail (c # cs) of
             None \<Rightarrow> None
           | Some (t, r) \<Rightarrow> Some ([], t, r)))"

text \<open>
  The replacement argument of \<^verbatim>\<open>String.prototype.replace\<close> is a template: \<^verbatim>\<open>$$\<close> stands for
  a dollar sign, \<^verbatim>\<open>$&\<close> for the matched text, \<^verbatim>\<open>$`\<close> and \<^verbatim>\<open>$'\<close> for the text before and
  after the match, \<^verbatim>\<open>$1\<close> and \<^verbatim>\<open>$01\<close> for group 1 (the pattern has one group); any other
  dollar sign stands for itself. The arguments are the matched text, the text before the match,
  the text after it, group 1 and the template.
\<close>

fun getSubstitution ::
  "jsstring \<Rightarrow> jsstring \<Rightarrow> jsstring \<Rightarrow> jsstring \<Rightarrow> jsstring \<Rightarrow> jsstring" where
  "getSubstitution m b a g [] = []"
| "getSubstitution m b a g [x] = [x]"
| "getSubstitution m b a g (x # y # t) =
     (if x \<noteq> 36 then x # getSubstitution m b a g (y # t)
      else if y = 36 then 36 # getSubstitution m b a g t
      else if y = 38 then m @ getSubstitution m b a g t
      else if y = 96 then b @ getSubstitution m b a g t
      else if y = 39 then a @ getSubstitution m b a g t
      else if y = 49 then g @ getSubstitution m b a g t
      else if y = 48 \<and> t \<noteq> [] \<and> hd t = 49 then g @ getSubstitution m b a g (tl t)
      else 36 # getSubstitution m b a g (y # t))"

lemma stripPrefix_Some: "stripPrefix p s = Some r \<longleftrightarrow> s = p @ r"
  by (induction p s rule: stripPrefix.induct) auto

lemma stripPrefix_None: "stripPrefix p s = None \<longleftrightarrow> \<not> prefix p s"
  by (induction p s rule: stripPrefix.induct) auto

lemma tempFileTail_Some:
  assumes "tempFileTail s = Some (t, r)"
  shows "s = t @ r" and "length r < length s"
proof -
  from assms obtain q where q: "s = js ''/compiled-docs/block-'' @ q"
    and t: "t = js ''/compiled-docs/block-'' @ takeWhile isDigit q @ js ''.ts''"
    and r: "dropWhile isDigit q = js ''.ts'' @ r"
    by (auto simp: tempFileTail_def stripPrefix_Some split: option.splits if_splits)
  have "q = takeWhile isDigit q @ dropWhile isDigit q" by simp
  with r have "q = takeWhile isDigit q @ js ''.ts'' @ r" by simp
  with q t show "s = t @ r" by simp
  then show "length r < length s" using t by (simp add: js_def)
qed

lemma prefixPattern_Some:
  "prefixPattern s = Some (cap, t, r) \<Longrightarrow> s = cap @ t @ r \<and> length r < length s"
proof (induction s arbitrary: cap)
  case Nil
  then show ?case by simp
next
  case (Cons c cs)
  show ?case
  proof (cases "if isLineTerminator c then None else prefixPattern cs")
    case None
    with Cons.prems obtain "cap = []" and "tempFileTail (c # cs) = Some (t, r)"
      by (auto split: option.splits)
    then show ?thesis using tempFileTail_Some[of "c # cs" t r] by simp
  next
    case (Some x)
    obtain cap' t' r' where x: "x = (cap', t', r')" by (cases x)
    with Some Cons.prems have e: "cap = c # cap'" "t' = t" "r' = r" by auto
    from Some x have "prefixPattern cs = Some (cap', t', r')" by (auto split: if_splits)
    with Cons.IH[of cap'] e show ?thesis by auto
  qed
qed

text \<open>
  \<^verbatim>\<open>message.replace(COMPILED_DOCS_FILE_PREFIX_PATTERN, template)\<close>: the pattern is global, so
  the search goes on behind each match; where no match starts the code unit is kept. The second
  argument is the text already passed, which \<^verbatim>\<open>$`\<close> refers to.
\<close>

function replaceAll :: "jsstring \<Rightarrow> jsstring \<Rightarrow> jsstring \<Rightarrow> jsstring" where
  "replaceAll tpl pre s =
     (case prefixPattern s of
        Some (cap, t, r) \<Rightarrow>
          getSubstitution (cap @ t) pre r cap tpl @ replaceAll tpl (pre @ cap @ t) r
      | None \<Rightarrow>
          (case s of
             [] \<Rightarrow> []
           | c # cs \<Rightarrow> c # replaceAll tpl (pre @ [c]) cs))"
  by pat_completeness auto
termination
  by (relation "measure (\<lambda>(tpl, pre, s). length s)") (auto dest: prefixPattern_Some)

declare replaceAll.simps [simp del]

section \<open>Line numbers in a diagnostic\<close>

text \<open>
  The pattern of \<^verbatim>\<open>testCodeCompilation\<close>,
  \<^verbatim>\<open>/Code Block \d+(?::(\d+):\d+)|(?:\((\d+),\d+\))/\<close>, has two alternatives.
  \<open>ttyFormat\<close> is the first, \<^verbatim>\<open>Code Block \d+:(\d+):\d+\<close>, at the head of a string, and
  \<open>nonTtyFormat\<close> the second, \<^verbatim>\<open>\((\d+),\d+\)\<close>; each returns the text of its group.
\<close>

definition digits1 :: "jsstring \<Rightarrow> (jsstring \<times> jsstring) option" where
  "digits1 s =
     (if takeWhile isDigit s = [] then None
      else Some (takeWhile isDigit s, dropWhile isDigit s))"

definition ttyFormat :: "jsstring \<Rightarrow> jsstring option" where
  "ttyFormat s =
     (case stripPrefix (js ''Code Block '') s of
        None \<Rightarrow> None
      | Some s1 \<Rightarrow>
     (case digits1 s1 of
        None \<Rightarrow> None
      | Some (block, s2) \<Rightarrow>
     (case stripPrefix (js '':'') s2 of
        None \<Rightarrow> None
      | Some s3 \<Rightarrow>
     (case digits1 s3 of
        None \<Rightarrow> None
      | Some (line, s4) \<Rightarrow>
     (case stripPrefix (js '':'') s4 of
        None \<Rightarrow> None
      | Some s5 \<Rightarrow>
     (case digits1 s5 of
        None \<Rightarrow> None
      | Some (col, s6) \<Rightarrow> Some line))))))"

definition nonTtyFormat :: "jsstring \<Rightarrow> jsstring option" where
  "nonTtyFormat s =
     (case stripPrefix (js ''('') s of
        None \<Rightarrow> None
      | Some s1 \<Rightarrow>
     (case digits1 s1 of
        None \<Rightarrow> None
      | Some (line, s2) \<Rightarrow>
     (case stripPrefix (js '','') s2 of
        None \<Rightarrow> None
      | Some s3 \<Rightarrow>
     (case digits1 s3 of
        None \<Rightarrow> None
      | Some (col, s4) \<Rightarrow>
     (case stripPrefix (js '')'') s4 of
        None \<Rightarrow> None
      | Some s5 \<Rightarrow> Some line)))))"

text \<open>
  \<^verbatim>\<open>message.match(pattern)\<close> without the global flag: the leftmost position where an
  alternative matches, the first alternative tried first. The result is the pair of the two
  groups (\<open>None\<close> is \<^verbatim>\<open>undefined\<close>), or \<open>None\<close> for \<^verbatim>\<open>null\<close>.
\<close>

fun lineNumberMatch :: "jsstring \<Rightarrow> (jsstring option \<times> jsstring option) option" where
  "lineNumberMatch [] = None"
| "lineNumberMatch (c # cs) =
     (case ttyFormat (c # cs) of
        Some l \<Rightarrow> Some (Some l, None)
      | None \<Rightarrow>
          (case nonTtyFormat (c # cs) of
             Some l \<Rightarrow> Some (None, Some l)
           | None \<Rightarrow> lineNumberMatch cs))"

text \<open>\<^verbatim>\<open>a || b\<close> on strings that may be \<^verbatim>\<open>undefined\<close>.\<close>

definition orElse :: "jsstring option \<Rightarrow> jsstring option \<Rightarrow> jsstring option" where
  "orElse a b = (case a of None \<Rightarrow> b | Some s \<Rightarrow> if s = [] then b else Some s)"

text \<open>
  \<^verbatim>\<open>const [, ttyLineNumber, nonTtyLineNumber] = stripAnsi(message).match(...) ?? []\<close> and
  \<^verbatim>\<open>parseInt(ttyLineNumber || nonTtyLineNumber, 10)\<close>, for a message already stripped.
\<close>

definition lineNumber :: "jsstring \<Rightarrow> enat option" where
  "lineNumber message =
     (case lineNumberMatch message of
        None \<Rightarrow> parseInt (orElse None None)
      | Some (ttyLineNumber, nonTtyLineNumber) \<Rightarrow>
          parseInt (orElse ttyLineNumber nonTtyLineNumber))"

text \<open>
  \<^verbatim>\<open>Set<number>.add\<close>: a set keeps its elements in the order in which they were first
  added, which is the order \<^verbatim>\<open>[...linesWithErrors]\<close> lists them in.
\<close>

definition setAdd :: "enat list \<Rightarrow> enat \<Rightarrow> enat list" where
  "setAdd xs x = (if x \<in> set xs then xs else xs @ [x])"

text \<open>
  The loop over \<^verbatim>\<open>error.diagnosticText.split('\n')\<close>; \<open>strip\<close> is \<^verbatim>\<open>stripAnsi\<close>.
\<close>

definition errorLines :: "(jsstring \<Rightarrow> jsstring) \<Rightarrow> jsstring \<Rightarrow> enat list" where
  "errorLines strip diagnosticText =
     foldl (\<lambda>linesWithErrors message.
              case lineNumber (strip message) of
                None \<Rightarrow> linesWithErrors
              | Some n \<Rightarrow> setAdd linesWithErrors n)
       [] (splitOn 10 diagnosticText)"

section \<open>Paths\<close>

text \<open>
  \<^verbatim>\<open>path.join\<close> of Node.js for two arguments, in its POSIX form: the non-empty arguments
  are joined with a slash and the result is normalised. Normalisation drops empty segments and
  \<^verbatim>\<open>.\<close> segments and lets a \<^verbatim>\<open>..\<close> segment remove the segment before it.
\<close>

fun joinWith :: "nat \<Rightarrow> jsstring list \<Rightarrow> jsstring" where
  "joinWith sep [] = []"
| "joinWith sep [x] = x"
| "joinWith sep (x # y # ys) = x @ sep # joinWith sep (y # ys)"

definition normalizeStep :: "bool \<Rightarrow> jsstring list \<Rightarrow> jsstring \<Rightarrow> jsstring list" where
  "normalizeStep allowAboveRoot res seg =
     (if seg = [] \<or> seg = js ''.'' then res
      else if seg = js ''..'' then
        (if res \<noteq> [] \<and> last res \<noteq> js ''..'' then butlast res
         else if allowAboveRoot then res @ [js ''..'']
         else res)
      else res @ [seg])"

definition normalizeString :: "jsstring \<Rightarrow> bool \<Rightarrow> jsstring" where
  "normalizeString path allowAboveRoot =
     joinWith 47 (foldl (normalizeStep allowAboveRoot) [] (splitOn 47 path))"

definition normalize :: "jsstring \<Rightarrow> jsstring" where
  "normalize path =
     (if path = [] then js ''.''
      else
        (let isAbsolute = (hd path = 47);
             trailingSeparator = (last path = 47);
             p = normalizeString path (\<not> isAbsolute)
         in if p = [] then
              (if isAbsolute then js ''/'' else if trailingSeparator then js ''./'' else js ''.'')
            else (if isAbsolute then [47] else []) @ p @ (if trailingSeparator then [47] else [])))"

definition path_join :: "jsstring \<Rightarrow> jsstring \<Rightarrow> jsstring" where
  "path_join a b =
     (let joined = (if a = [] then b else if b = [] then a else a @ [47] @ b)
      in if joined = [] then js ''.'' else normalize joined)"

section \<open>The display label\<close>

text \<open>
  \<^verbatim>\<open>chalk`{blue ${example.file}} \<rightarrow> {cyan Code Block ${example.index}}`\<close>. At colour level 0
  chalk returns the text as it is; at a higher level it wraps a non-empty text in the escape
  sequences of the colour (34 for blue, 36 for cyan) and of the default colour (39). The model
  covers texts without line breaks and escape sequences of their own. The arrow is the code
  unit U+2192.
\<close>

definition chalkStyle :: "nat \<Rightarrow> nat \<Rightarrow> jsstring \<Rightarrow> jsstring" where
  "chalkStyle level colour s =
     (if level = 0 \<or> s = [] then s
      else [27, 91] @ toString colour @ [109] @ s @ [27, 91] @ toString 39 @ [109])"

record CodeBlock =
  blockFile :: jsstring
  index :: nat
  snippet :: jsstring
  sanitisedCode :: jsstring

definition displayLabel :: "nat \<Rightarrow> CodeBlock \<Rightarrow> jsstring" where
  "displayLabel level example =
     chalkStyle level 34 (blockFile example) @ [32, 8594, 32] @
     chalkStyle level 36 (js ''Code Block '' @ toString (index example))"

definition removeTemporaryFilePaths :: "nat \<Rightarrow> jsstring \<Rightarrow> CodeBlock \<Rightarrow> jsstring" where
  "removeTemporaryFilePaths level message example =
     replaceAll (displayLabel level example) [] message"

section \<open>Thrown values, results and the environment\<close>

text \<open>
  What a call may throw is an \<^verbatim>\<open>Error\<close> object or any other value. Of an error object the
  model keeps the message, whether it is a \<^verbatim>\<open>TSNode.TSError\<close> (then with its
  \<^verbatim>\<open>diagnosticText\<close> and whether that property is enumerable, which depends on the version
  of the compilation service) and the other own enumerable properties, which are what
  \<^verbatim>\<open>Object.entries\<close> lists (the message of an \<^verbatim>\<open>Error\<close> is an own property that is not
  enumerable, which is why \<^verbatim>\<open>testCodeCompilation\<close> rewrites it by itself). Of a property
  value that is no string nothing is kept. Of a thrown value that is no error object the model
  keeps \<^verbatim>\<open>String(rawError)\<close>. The properties of the objects are taken to be writable.
\<close>

datatype js_value = JSString jsstring | NotAString

datatype error_kind = TSError (diagnosticText: jsstring) (textEnumerable: bool) | OtherError

record js_error =
  message :: jsstring
  kind :: error_kind
  ownEnumerable :: "(jsstring \<times> js_value) list"

datatype thrown = ErrorObject js_error | OtherValue jsstring

record SnippetCompilationResult =
  resultFile :: jsstring
  resultIndex :: nat
  resultSnippet :: jsstring
  linesWithErrors :: "enat list"
  error :: "js_error option"

text \<open>
  The file system as far as \<^verbatim>\<open>SnippetCompiler\<close> touches it: whether the working directory
  is there, and the files written into it, the latest first.
\<close>

record world =
  directoryPresent :: bool
  tempFiles :: "(jsstring \<times> jsstring) list"

datatype fs_call = RemoveBefore | EnsureDir | WriteFile jsstring | RemoveAfter

text \<open>
  A whole call of \<^verbatim>\<open>compileSnippets\<close> fails with the value that was thrown; the model
  records with it where it was thrown: by \<^verbatim>\<open>PackageInfo.read()\<close>, by the constructor of
  \<^verbatim>\<open>LocalImportSubstituter\<close>, by the extraction of a document, or by a call of \<^verbatim>\<open>fs-extra\<close>
  on the working directory.
\<close>

datatype failure =
    PackageInfoFailure thrown
  | LocalImportSubstituterFailure thrown
  | DocumentFailure jsstring thrown
  | WorkingDirectoryFailure fs_call thrown

text \<open>
  The collaborators of \<^verbatim>\<open>SnippetCompiler\<close> are parameters of the model:
  \<^item> \<open>hrtime k\<close> is what the \<open>k\<close>-th call of \<^verbatim>\<open>process.hrtime.bigint()\<close> in a run returns
    (counted from 0);
  \<^item> \<open>fault c\<close> is what the file-system call \<open>c\<close> throws, if it throws;
  \<^item> \<open>packageInfoRead\<close> is what \<^verbatim>\<open>await PackageInfo.read()\<close> throws, if it throws, and
    \<open>newLocalImportSubstituter\<close> what \<^verbatim>\<open>new LocalImportSubstituter(packageDefn)\<close> throws, if
    it throws; the package definition goes nowhere but into that constructor, and the object
    that the constructor returns is used for its one method,
    \<open>substituteLocalPackageImports\<close>, which is what the model keeps of the two;
  \<^item> \<open>extractBlocks\<close> is \<^verbatim>\<open>CodeBlockExtractor.extract\<close>, which returns the blocks of a
    document or throws;
  \<^item> \<open>compilerCompile code fileName\<close> is what \<^verbatim>\<open>this.compiler.compile(code, fileName)\<close>
    throws, if it throws; it depends on the code and the file name only, so that the
    compilation of a block does not observe the compilation of another;
  \<^item> \<open>stripAnsi\<close> is the function of the package \<^verbatim>\<open>strip-ansi\<close>, \<open>chalkLevel\<close> the colour
    level of \<^verbatim>\<open>chalk\<close> and \<open>cwd\<close> the value of \<^verbatim>\<open>process.cwd()\<close>.
\<close>

record environment =
  hrtime :: "nat \<Rightarrow> nat"
  fault :: "fs_call \<Rightarrow> thrown option"
  packageInfoRead :: "thrown option"
  newLocalImportSubstituter :: "thrown option"
  substituteLocalPackageImports :: "jsstring \<Rightarrow> jsstring"
  extractBlocks :: "jsstring \<Rightarrow> thrown + jsstring list"
  compilerCompile :: "jsstring \<Rightarrow> jsstring \<Rightarrow> thrown option"
  stripAnsi :: "jsstring \<Rightarrow> jsstring"
  chalkLevel :: nat
  cwd :: jsstring

record SnippetCompiler =
  workingDirectory :: jsstring

section \<open>The file-system calls\<close>

definition fsExtra_remove :: "environment \<Rightarrow> fs_call \<Rightarrow> world \<Rightarrow> thrown option \<times> world" where
  "fsExtra_remove env c w =
     (case fault env c of
        Some t \<Rightarrow> (Some t, w)
      | None \<Rightarrow> (None, w\<lparr>directoryPresent := False, tempFiles := []\<rparr>))"

definition fsExtra_ensureDir :: "environment \<Rightarrow> world \<Rightarrow> thrown option \<times> world" where
  "fsExtra_ensureDir env w =
     (case fault env EnsureDir of
        Some t \<Rightarrow> (Some t, w)
      | None \<Rightarrow> (None, w\<lparr>directoryPresent := True\<rparr>))"

definition fsExtra_writeFile ::
  "environment \<Rightarrow> jsstring \<Rightarrow> jsstring \<Rightarrow> world \<Rightarrow> thrown option \<times> world" where
  "fsExtra_writeFile env codeFile code w =
     (case fault env (WriteFile codeFile) of
        Some t \<Rightarrow> (Some t, w)
      | None \<Rightarrow> (None, w\<lparr>tempFiles := (codeFile, code) # tempFiles w\<rparr>))"

section \<open>Promise.all\<close>

text \<open>
  \<^verbatim>\<open>Promise.all(tasks.map(async ...))\<close> starts every task in the order of the array and
  then lets them complete in an order that the program does not control. The model gets that
  order as a list of choices: at each step the next choice (modulo the number of pending tasks)
  picks the pending task that completes next, so every list of choices is a completion order
  and every completion order is the result of some list of choices. A task is run with its
  position in the array. When a task is fulfilled its value is stored at its position (the
  values are kept sorted by position); when one is rejected, the whole promise is rejected with
  that reason, and what the tasks still pending do is no longer observed.
\<close>

definition nextChoice :: "nat list \<Rightarrow> nat \<Rightarrow> nat" where
  "nextChoice choices n = (case choices of [] \<Rightarrow> 0 | c # cs \<Rightarrow> c mod n)"

lemma nextChoice_less: "0 < n \<Longrightarrow> nextChoice choices n < n"
  by (simp add: nextChoice_def split: list.splits)

lemma nextChoice_not_ge: "Suc n \<le> nextChoice choices (Suc n) \<Longrightarrow> False"
  using nextChoice_less[of "Suc n" choices] by simp

function promiseAll ::
  "(nat \<Rightarrow> 't \<Rightarrow> 's \<Rightarrow> ('e + 'a) \<times> 's) \<Rightarrow> nat list \<Rightarrow> (nat \<times> 't) list \<Rightarrow> (nat \<times> 'a) list \<Rightarrow> 's
     \<Rightarrow> ('e + 'a list) \<times> 's" where
  "promiseAll run choices [] vals s = (Inr (map snd vals), s)"
| "promiseAll run choices (p # ps) vals s =
     (let i = nextChoice choices (length (p # ps));
          task = (p # ps) ! i;
          pending = take i (p # ps) @ drop (Suc i) (p # ps)
      in case run (fst task) (snd task) s of
           (Inl e, s') \<Rightarrow> (Inl e, s')
         | (Inr v, s') \<Rightarrow>
             promiseAll run (tl choices) pending (insort_key fst (fst task, v) vals) s')"
  by pat_completeness auto
termination
  by (relation "measure (\<lambda>(run, choices, pending, vals, s). length pending)")
     (auto simp: min_def dest: nextChoice_not_ge)

declare promiseAll.simps [simp del]

text \<open>
  What \<open>promiseAll\<close> gives when the outcome \<open>f k t\<close> of a task does not depend on the state in
  which it runs: a rejection is the rejection of one of the tasks, some task being rejected is
  enough for a rejection, and when every task is fulfilled the values come back by position.
\<close>

lemma keyed_sorted_unique:
  "mset xs = mset ys \<Longrightarrow> sorted (map fst xs) \<Longrightarrow> sorted (map fst ys) \<Longrightarrow>
   distinct (map fst ys) \<Longrightarrow> xs = (ys :: (nat \<times> 'a) list)"
proof (induction ys arbitrary: xs)
  case Nil
  then show ?case by simp
next
  case (Cons y ys)
  from Cons.prems(1) have "xs \<noteq> []" by auto
  then obtain x xs' where xs: "xs = x # xs'" by (cases xs) auto
  have x_in: "x \<in> set (y # ys)"
    using Cons.prems(1) xs by (metis list.set_intros(1) mset_eq_setD)
  have y_in: "y \<in> set (x # xs')"
    using Cons.prems(1) xs by (metis list.set_intros(1) mset_eq_setD)
  have "fst x \<le> fst y" using y_in Cons.prems(2) xs by auto
  moreover have "fst y \<le> fst x" using x_in Cons.prems(3) by auto
  ultimately have "fst x = fst y" by simp
  with x_in Cons.prems(4) have "x = y" by (auto simp: image_iff)
  with Cons.prems xs have "mset xs' = mset ys" "sorted (map fst xs')" by auto
  with Cons.IH[of xs'] Cons.prems have "xs' = ys" by simp
  with \<open>x = y\<close> xs show ?case by simp
qed

lemma mset_without_nth:
  "i < length xs \<Longrightarrow> mset (take i xs @ drop (Suc i) xs) + {#xs ! i#} = mset xs"
proof -
  assume "i < length xs"
  then have "xs = take i xs @ xs ! i # drop (Suc i) xs" by (rule id_take_nth_drop)
  then have "mset xs = mset (take i xs @ xs ! i # drop (Suc i) xs)" by simp
  then show ?thesis by simp
qed

lemma set_without_nth: "set (take i xs @ drop (Suc i) xs) \<subseteq> set xs"
  by (auto dest: in_set_takeD in_set_dropD)

lemma promiseAll_rejected:
  assumes run: "\<And>k t s. fst (run k t s) = f k t"
  shows "fst (promiseAll run choices tasks vals s) = Inl e \<Longrightarrow>
         \<exists>(k, t) \<in> set tasks. f k t = Inl e"
proof (induction "length tasks" arbitrary: tasks vals choices s)
  case 0
  then show ?case by (simp add: promiseAll.simps)
next
  case (Suc n)
  then obtain p ps where tasks: "tasks = p # ps" by (cases tasks) auto
  define i where "i = nextChoice choices (length (p # ps))"
  define pending where "pending = take i (p # ps) @ drop (Suc i) (p # ps)"
  have i: "i < length tasks" unfolding i_def tasks by (rule nextChoice_less) simp
  obtain k t where task: "tasks ! i = (k, t)" by (cases "tasks ! i")
  have mem: "(k, t) \<in> set tasks" using i task by (metis nth_mem)
  obtain r s' where r: "run k t s = (r, s')" by (cases "run k t s")
  with run[of k t s] have fr: "f k t = r" by simp
  show ?case
  proof (cases r)
    case (Inl e')
    with Suc.prems r task have "e' = e"
      by (simp add: promiseAll.simps tasks i_def Let_def)
    with Inl fr mem show ?thesis by auto
  next
    case (Inr v)
    with Suc.prems r task
    have "fst (promiseAll run (tl choices) pending (insort_key fst (k, v) vals) s') = Inl e"
      by (simp add: promiseAll.simps tasks i_def pending_def Let_def)
    moreover have "n = length pending"
      using Suc.hyps(2) i by (simp add: pending_def tasks min_def)
    ultimately have "\<exists>(k, t) \<in> set pending. f k t = Inl e" by (rule Suc.hyps(1)[rotated])
    then show ?thesis using set_without_nth[of i tasks] by (auto simp: pending_def tasks)
  qed
qed

lemma promiseAll_fulfilled:
  assumes run: "\<And>k t s. fst (run k t s) = f k t"
  shows "\<forall>(k, t) \<in> set tasks. f k t = Inr (g k t) \<Longrightarrow>
         \<exists>vf. fst (promiseAll run choices tasks vals s) = Inr (map snd vf)
            \<and> mset vf = mset vals + mset (map (\<lambda>(k, t). (k, g k t)) tasks)
            \<and> (sorted (map fst vals) \<longrightarrow> sorted (map fst vf))"
proof (induction "length tasks" arbitrary: tasks vals choices s)
  case 0
  then have "fst (promiseAll run choices tasks vals s) = Inr (map snd vals)"
    by (simp add: promiseAll.simps)
  with 0 show ?case by auto
next
  case (Suc n)
  then obtain p ps where tasks: "tasks = p # ps" by (cases tasks) auto
  define i where "i = nextChoice choices (length (p # ps))"
  define pending where "pending = take i (p # ps) @ drop (Suc i) (p # ps)"
  have i: "i < length tasks" unfolding i_def tasks by (rule nextChoice_less) simp
  obtain k t where task: "tasks ! i = (k, t)" by (cases "tasks ! i")
  have mem: "(k, t) \<in> set tasks" using i task by (metis nth_mem)
  obtain r s' where r: "run k t s = (r, s')" by (cases "run k t s")
  with run[of k t s] Suc.prems mem have rv: "r = Inr (g k t)" by auto
  have step: "promiseAll run choices tasks vals s =
      promiseAll run (tl choices) pending (insort_key fst (k, g k t) vals) s'"
    using r rv task by (simp add: promiseAll.simps tasks i_def pending_def Let_def)
  have len: "n = length pending"
    using Suc.hyps(2) i by (simp add: pending_def tasks min_def)
  have sub: "\<forall>(k, t) \<in> set pending. f k t = Inr (g k t)"
    using Suc.prems set_without_nth[of i tasks] by (auto simp: pending_def tasks)
  from Suc.hyps(1)[OF len sub, of "tl choices" "insort_key fst (k, g k t) vals" s']
  obtain vf where vf: "fst (promiseAll run (tl choices) pending (insort_key fst (k, g k t) vals) s') = Inr (map snd vf)"
    "mset vf = mset (insort_key fst (k, g k t) vals) + mset (map (\<lambda>(k, t). (k, g k t)) pending)"
    "sorted (map fst (insort_key fst (k, g k t) vals)) \<longrightarrow> sorted (map fst vf)"
    by blast
  have "mset (map (\<lambda>(k, t). (k, g k t)) pending) + {#(k, g k t)#} = mset (map (\<lambda>(k, t). (k, g k t)) tasks)"
    using mset_without_nth[OF i] task
    by (metis (no_types, lifting) pending_def tasks mset_map image_mset_add_mset image_mset_union
          add_mset_add_single case_prod_conv image_mset_single)
  with vf(2) have "mset vf = mset vals + mset (map (\<lambda>(k, t). (k, g k t)) tasks)"
    by (simp add: union_ac flip: add_mset_add_single)
  moreover have "sorted (map fst vals) \<longrightarrow> sorted (map fst vf)"
    using vf(3) by (simp add: sorted_insort_key)
  ultimately show ?case using vf(1) step by auto
qed

lemma promiseAll_rejects:
  assumes run: "\<And>k t s. fst (run k t s) = f k t"
  shows "\<exists>(k, t) \<in> set tasks. isl (f k t) \<Longrightarrow> isl (fst (promiseAll run choices tasks vals s))"
proof (induction "length tasks" arbitrary: tasks vals choices s)
  case 0
  then show ?case by simp
next
  case (Suc n)
  then obtain p ps where tasks: "tasks = p # ps" by (cases tasks) auto
  define i where "i = nextChoice choices (length (p # ps))"
  define pending where "pending = take i (p # ps) @ drop (Suc i) (p # ps)"
  have i: "i < length tasks" unfolding i_def tasks by (rule nextChoice_less) simp
  obtain k t where task: "tasks ! i = (k, t)" by (cases "tasks ! i")
  obtain r s' where r: "run k t s = (r, s')" by (cases "run k t s")
  with run[of k t s] have fr: "f k t = r" by simp
  show ?case
  proof (cases r)
    case (Inl e')
    with r task show ?thesis
      by (simp add: promiseAll.simps tasks i_def Let_def)
  next
    case (Inr v)
    with r task
    have step: "promiseAll run choices tasks vals s =
        promiseAll run (tl choices) pending (insort_key fst (k, v) vals) s'"
      by (simp add: promiseAll.simps tasks i_def pending_def Let_def)
    have len: "n = length pending"
      using Suc.hyps(2) i by (simp add: pending_def tasks min_def)
    from Suc.prems obtain k' t' where bad: "(k', t') \<in> set tasks" "isl (f k' t')" by auto
    have "(k', t') \<noteq> tasks ! i" using bad(2) fr Inr task by auto
    moreover have "set tasks = set pending \<union> {tasks ! i}"
      using mset_without_nth[OF i] unfolding pending_def tasks
      by (metis set_mset_mset set_mset_union set_mset_single)
    ultimately have "(k', t') \<in> set pending" using bad(1) by auto
    with bad(2) have "\<exists>(k, t) \<in> set pending. isl (f k t)" by auto
    from Suc.hyps(1)[OF len this] step show ?thesis by simp
  qed
qed

lemma promiseAll_state:
  assumes "\<And>k t s. P s \<Longrightarrow> P (snd (run k t s))"
  shows "P s \<Longrightarrow> P (snd (promiseAll run choices tasks vals s))"
proof (induction "length tasks" arbitrary: tasks vals choices s)
  case 0
  then show ?case by (simp add: promiseAll.simps)
next
  case (Suc n)
  then obtain p ps where tasks: "tasks = p # ps" by (cases tasks) auto
  define i where "i = nextChoice choices (length (p # ps))"
  define pending where "pending = take i (p # ps) @ drop (Suc i) (p # ps)"
  have i: "i < length tasks" unfolding i_def tasks by (rule nextChoice_less) simp
  obtain k t where task: "tasks ! i = (k, t)" by (cases "tasks ! i")
  obtain r s' where r: "run k t s = (r, s')" by (cases "run k t s")
  have Ps': "P s'" using assms[OF Suc.prems, of k t] r by simp
  have len: "n = length pending"
    using Suc.hyps(2) i by (simp add: pending_def tasks min_def)
  show ?case
  proof (cases r)
    case (Inl e')
    with r task Ps' show ?thesis
      by (simp add: promiseAll.simps tasks i_def Let_def)
  next
    case (Inr v)
    with r task
    have step: "promiseAll run choices tasks vals s =
        promiseAll run (tl choices) pending (insort_key fst (k, v) vals) s'"
      by (simp add: promiseAll.simps tasks i_def pending_def Let_def)
    from Suc.hyps(1)[OF len Ps'] step show ?thesis by simp
  qed
qed

lemma promiseAll_enumerate:
  assumes run: "\<And>k t s. fst (run k t s) = f k t"
    and ok: "\<forall>(k, t) \<in> set (List.enumerate 0 xs). f k t = Inr (g k t)"
  shows "fst (promiseAll run choices (List.enumerate 0 xs) [] s) =
         Inr (map (\<lambda>(k, t). g k t) (List.enumerate 0 xs))"
proof -
  let ?full = "map (\<lambda>(k, t). (k, g k t)) (List.enumerate 0 xs)"
  from promiseAll_fulfilled[of run f "List.enumerate 0 xs" g choices "[]" s, OF run ok]
  obtain vf where vf: "fst (promiseAll run choices (List.enumerate 0 xs) [] s) = Inr (map snd vf)"
    "mset vf = mset ?full" "sorted (map fst vf)"
    by auto
  have keys: "map fst ?full = [0..<length xs]"
    by (simp add: comp_def case_prod_unfold flip: map_fst_enumerate[of 0 xs, simplified])
  have "sorted (map fst ?full)" "distinct (map fst ?full)"
    unfolding keys by simp_all
  with vf(2,3) have "vf = ?full"
    by (rule keyed_sorted_unique)
  then have "map snd vf = map (\<lambda>(k, t). g k t) (List.enumerate 0 xs)"
    by (simp add: comp_def case_prod_unfold)
  with vf(1) show ?thesis by simp
qed

section \<open>SnippetCompiler\<close>

definition cleanWorkingDirectory ::
  "environment \<Rightarrow> SnippetCompiler \<Rightarrow> fs_call \<Rightarrow> world \<Rightarrow> thrown option \<times> world" where
  "cleanWorkingDirectory env this c w = fsExtra_remove env c w"

definition sanitiseCodeBlock :: "environment \<Rightarrow> jsstring \<Rightarrow> jsstring" where
  "sanitiseCodeBlock env block = substituteLocalPackageImports env block"

definition extractFileCodeBlocks :: "environment \<Rightarrow> jsstring \<Rightarrow> failure + CodeBlock list" where
  "extractFileCodeBlocks env file =
     (case extractBlocks env file of
        Inl t \<Rightarrow> Inl (DocumentFailure file t)
      | Inr blocks \<Rightarrow>
          Inr (map (\<lambda>(i, block).
                      \<lparr>blockFile = file, index = i + 1, snippet = block,
                       sanitisedCode = sanitiseCodeBlock env block\<rparr>)
                 (List.enumerate 0 blocks)))"

text \<open>
  \<^verbatim>\<open>extractAllCodeBlocks\<close> reads the package definition and builds the import substituter
  before it starts the extractions; what either throws ends the call.
\<close>

definition extractAllCodeBlocks ::
  "environment \<Rightarrow> nat list \<Rightarrow> jsstring list \<Rightarrow> failure + CodeBlock list" where
  "extractAllCodeBlocks env choices documentationFiles =
     (case packageInfoRead env of
        Some t \<Rightarrow> Inl (PackageInfoFailure t)
      | None \<Rightarrow>
     (case newLocalImportSubstituter env of
        Some t \<Rightarrow> Inl (LocalImportSubstituterFailure t)
      | None \<Rightarrow>
     (case fst (promiseAll (\<lambda>k file u. (extractFileCodeBlocks env file, u)) choices
                  (List.enumerate 0 documentationFiles) [] ()) of
        Inl f \<Rightarrow> Inl f
      | Inr codeBlocks \<Rightarrow> Inr (concat codeBlocks))))"

text \<open>
  \<^verbatim>\<open>compile\<close> reads the clock before its first \<^verbatim>\<open>await\<close>, so the block at position \<open>k\<close>
  of the array gets the \<open>k\<close>-th reading, whatever the order of completion.
\<close>

definition codeFileName :: "environment \<Rightarrow> SnippetCompiler \<Rightarrow> nat \<Rightarrow> jsstring" where
  "codeFileName env this k =
     path_join (workingDirectory this) (js ''block-'' @ toString (hrtime env k) @ js ''.ts'')"

definition compile ::
  "environment \<Rightarrow> SnippetCompiler \<Rightarrow> nat \<Rightarrow> jsstring \<Rightarrow> world \<Rightarrow> thrown option \<times> world" where
  "compile env this k code w =
     (let codeFile = codeFileName env this k
      in case fsExtra_writeFile env codeFile code w of
           (Some t, w') \<Rightarrow> (Some t, w')
         | (None, w') \<Rightarrow> (compilerCompile env code codeFile, w'))"

text \<open>\<^verbatim>\<open>rawError instanceof Error ? rawError : new Error(String(rawError))\<close>\<close>

definition toError :: "thrown \<Rightarrow> js_error" where
  "toError rawError =
     (case rawError of
        ErrorObject e \<Rightarrow> e
      | OtherValue s \<Rightarrow> \<lparr>message = s, kind = OtherError, ownEnumerable = []\<rparr>)"

text \<open>The loop over \<^verbatim>\<open>Object.entries(error)\<close>, which rewrites the values that are strings.\<close>

definition scrubValue :: "(jsstring \<Rightarrow> jsstring) \<Rightarrow> js_value \<Rightarrow> js_value" where
  "scrubValue scrub v = (case v of JSString s \<Rightarrow> JSString (scrub s) | NotAString \<Rightarrow> NotAString)"

definition scrubEntries :: "(jsstring \<Rightarrow> jsstring) \<Rightarrow> js_error \<Rightarrow> js_error" where
  "scrubEntries scrub e =
     e\<lparr>kind := (case kind e of
                  TSError text enumerable \<Rightarrow> TSError (if enumerable then scrub text else text) enumerable
                | OtherError \<Rightarrow> OtherError),
       ownEnumerable := map (\<lambda>(key, v). (key, scrubValue scrub v)) (ownEnumerable e)\<rparr>"

definition scrubError :: "environment \<Rightarrow> CodeBlock \<Rightarrow> thrown \<Rightarrow> js_error" where
  "scrubError env example rawError =
     (let scrub = (\<lambda>m. removeTemporaryFilePaths (chalkLevel env) m example);
          e = toError rawError
      in scrubEntries scrub (e\<lparr>message := scrub (message e)\<rparr>))"

definition testCodeCompilation ::
  "environment \<Rightarrow> SnippetCompiler \<Rightarrow> nat \<Rightarrow> CodeBlock \<Rightarrow> world \<Rightarrow> SnippetCompilationResult \<times> world"
  where
  "testCodeCompilation env this k example w =
     (case compile env this k (sanitisedCode example) w of
        (None, w') \<Rightarrow>
          (\<lparr>resultFile = blockFile example, resultIndex = index example,
            resultSnippet = snippet example, linesWithErrors = [], error = None\<rparr>, w')
      | (Some rawError, w') \<Rightarrow>
          (let e = scrubError env example rawError
           in (\<lparr>resultFile = blockFile example, resultIndex = index example,
                resultSnippet = snippet example,
                linesWithErrors =
                  (case kind e of
                     TSError text enumerable \<Rightarrow> errorLines (stripAnsi env) text
                   | OtherError \<Rightarrow> []),
                error = Some e\<rparr>, w')))"

text \<open>
  The \<^verbatim>\<open>try\<close> block of \<^verbatim>\<open>compileSnippets\<close>. The two lists of choices are the orders in
  which the extractions and the compilations complete.
\<close>

definition compileSnippetsTry ::
  "environment \<Rightarrow> SnippetCompiler \<Rightarrow> nat list \<Rightarrow> nat list \<Rightarrow> jsstring list \<Rightarrow> world
     \<Rightarrow> (failure + SnippetCompilationResult list) \<times> world" where
  "compileSnippetsTry env this extractOrder compileOrder documentationFiles w =
     (case cleanWorkingDirectory env this RemoveBefore w of
        (Some t, w1) \<Rightarrow> (Inl (WorkingDirectoryFailure RemoveBefore t), w1)
      | (None, w1) \<Rightarrow>
     (case fsExtra_ensureDir env w1 of
        (Some t, w2) \<Rightarrow> (Inl (WorkingDirectoryFailure EnsureDir t), w2)
      | (None, w2) \<Rightarrow>
     (case extractAllCodeBlocks env extractOrder documentationFiles of
        Inl f \<Rightarrow> (Inl f, w2)
      | Inr examples \<Rightarrow>
          promiseAll (\<lambda>k example w'. case testCodeCompilation env this k example w' of
                                        (r, w'') \<Rightarrow> (Inr r, w''))
            compileOrder (List.enumerate 0 examples) [] w2)))"

text \<open>
  \<^verbatim>\<open>compileSnippets\<close>: the \<^verbatim>\<open>finally\<close> block runs after the \<^verbatim>\<open>try\<close> block however that
  ended; what it throws replaces the outcome of the \<^verbatim>\<open>try\<close> block.
\<close>

definition compileSnippets ::
  "environment \<Rightarrow> SnippetCompiler \<Rightarrow> nat list \<Rightarrow> nat list \<Rightarrow> jsstring list \<Rightarrow> world
     \<Rightarrow> (failure + SnippetCompilationResult list) \<times> world" where
  "compileSnippets env this extractOrder compileOrder documentationFiles w =
     (case compileSnippetsTry env this extractOrder compileOrder documentationFiles w of
        (outcome, w') \<Rightarrow>
          (case cleanWorkingDirectory env this RemoveAfter w' of
             (Some t, w'') \<Rightarrow> (Inl (WorkingDirectoryFailure RemoveAfter t), w'')
           | (None, w'') \<Rightarrow> (outcome, w'')))"

section \<open>The outcome of a run\<close>

text \<open>
  The names used to state what a run gives: the code blocks of a document and of a list of
  documents in the order of the list, the raw blocks of a document, whether every document of
  a list can be read, and the results of the blocks of a list of documents taken one after the
  other (the result of a block does not depend on the state of the file system, see
  \<open>testCodeCompilation_world\<close>).
\<close>

definition codeBlocks :: "environment \<Rightarrow> jsstring \<Rightarrow> CodeBlock list" where
  "codeBlocks env file =
     (case extractFileCodeBlocks env file of Inl f \<Rightarrow> [] | Inr examples \<Rightarrow> examples)"

definition allCodeBlocks :: "environment \<Rightarrow> jsstring list \<Rightarrow> CodeBlock list" where
  "allCodeBlocks env documentationFiles = concat (map (codeBlocks env) documentationFiles)"

definition blocksOf :: "environment \<Rightarrow> jsstring \<Rightarrow> jsstring list" where
  "blocksOf env file = (case extractBlocks env file of Inl t \<Rightarrow> [] | Inr blocks \<Rightarrow> blocks)"

definition readable :: "environment \<Rightarrow> jsstring list \<Rightarrow> bool" where
  "readable env documentationFiles = list_all (\<lambda>file. \<not> isl (extractBlocks env file)) documentationFiles"

definition expectedResults ::
  "environment \<Rightarrow> SnippetCompiler \<Rightarrow> jsstring list \<Rightarrow> SnippetCompilationResult list" where
  "expectedResults env this documentationFiles =
     map (\<lambda>(k, example).
            fst (testCodeCompilation env this k example \<lparr>directoryPresent = True, tempFiles = []\<rparr>))
       (List.enumerate 0 (allCodeBlocks env documentationFiles))"

lemma testCodeCompilation_world:
  "fst (testCodeCompilation env this k example w) = fst (testCodeCompilation env this k example w')"
  by (simp add: testCodeCompilation_def compile_def fsExtra_writeFile_def Let_def
      split: option.splits)

lemma testCodeCompilation_directory:
  "directoryPresent (snd (testCodeCompilation env this k example w)) = directoryPresent w"
  by (simp add: testCodeCompilation_def compile_def fsExtra_writeFile_def Let_def
      split: option.splits)

lemma extractFileCodeBlocks_Inl:
  "extractFileCodeBlocks env file = Inl f \<longleftrightarrow>
   (\<exists>t. extractBlocks env file = Inl t \<and> f = DocumentFailure file t)"
  by (auto simp: extractFileCodeBlocks_def split: sum.splits)

lemma extractFileCodeBlocks_Inr:
  "\<not> isl (extractBlocks env file) \<Longrightarrow> extractFileCodeBlocks env file = Inr (codeBlocks env file)"
  by (auto simp: codeBlocks_def extractFileCodeBlocks_def split: sum.splits)

lemma map_snd_of_enumerate: "map (\<lambda>(k, x). g x) (List.enumerate n xs) = map g xs"
  by (induction xs arbitrary: n) simp_all

lemma extractAllCodeBlocks_Inl:
  assumes "extractAllCodeBlocks env choices files = Inl f"
  shows "(\<exists>t. packageInfoRead env = Some t \<and> f = PackageInfoFailure t)
       \<or> (\<exists>t. newLocalImportSubstituter env = Some t \<and> f = LocalImportSubstituterFailure t)
       \<or> (\<exists>file \<in> set files. \<exists>t. extractBlocks env file = Inl t \<and> f = DocumentFailure file t)"
proof (cases "packageInfoRead env = None \<and> newLocalImportSubstituter env = None")
  case False
  with assms show ?thesis
    by (auto simp: extractAllCodeBlocks_def split: option.splits)
next
  case True
  let ?run = "\<lambda>(k::nat) file (u::unit). (extractFileCodeBlocks env file, u)"
  from assms True have "fst (promiseAll ?run choices (List.enumerate 0 files) [] ()) = Inl f"
    by (simp add: extractAllCodeBlocks_def split: sum.splits)
  then have "\<exists>(k, file) \<in> set (List.enumerate 0 files). extractFileCodeBlocks env file = Inl f"
    by (rule promiseAll_rejected[rotated]) simp
  then show ?thesis
    by (auto simp: in_set_enumerate_eq extractFileCodeBlocks_Inl)
qed

lemma extractAllCodeBlocks_package:
  assumes "packageInfoRead env \<noteq> None \<or> newLocalImportSubstituter env \<noteq> None"
  shows "isl (extractAllCodeBlocks env choices files)"
  using assms by (auto simp: extractAllCodeBlocks_def split: option.splits)

lemma extractAllCodeBlocks_Inr:
  assumes "packageInfoRead env = None" "newLocalImportSubstituter env = None"
    and "readable env files"
  shows "extractAllCodeBlocks env choices files = Inr (allCodeBlocks env files)"
proof -
  let ?run = "\<lambda>(k::nat) file (u::unit). (extractFileCodeBlocks env file, u)"
  have "\<forall>(k, file) \<in> set (List.enumerate 0 files).
          extractFileCodeBlocks env file = Inr (codeBlocks env file)"
    using assms(3)
    by (auto simp: readable_def list_all_iff in_set_enumerate_eq intro: extractFileCodeBlocks_Inr)
  then have "fst (promiseAll ?run choices (List.enumerate 0 files) [] ()) =
             Inr (map (\<lambda>(k, file). codeBlocks env file) (List.enumerate 0 files))"
    by (rule promiseAll_enumerate[rotated]) simp
  moreover have "map (\<lambda>(k, file). codeBlocks env file) (List.enumerate 0 files) = map (codeBlocks env) files"
    by (rule map_snd_of_enumerate)
  ultimately show ?thesis
    using assms(1,2) by (simp add: extractAllCodeBlocks_def allCodeBlocks_def)
qed

lemma extractAllCodeBlocks_unreadable:
  assumes "\<not> readable env files"
  shows "isl (extractAllCodeBlocks env choices files)"
proof -
  let ?run = "\<lambda>(k::nat) file (u::unit). (extractFileCodeBlocks env file, u)"
  from assms obtain d where d: "d \<in> set files" "isl (extractBlocks env d)"
    by (auto simp: readable_def list_all_iff)
  then obtain i where "i < length files" "files ! i = d"
    by (auto simp: in_set_conv_nth)
  then have "(i, d) \<in> set (List.enumerate 0 files)"
    by (simp add: in_set_enumerate_eq)
  moreover have "isl (extractFileCodeBlocks env d)"
    using d(2) by (auto simp: extractFileCodeBlocks_def split: sum.splits)
  ultimately have "\<exists>(k, file) \<in> set (List.enumerate 0 files). isl (extractFileCodeBlocks env file)"
    by auto
  then have "isl (fst (promiseAll ?run choices (List.enumerate 0 files) [] ()))"
    by (rule promiseAll_rejects[rotated]) simp
  then show ?thesis
    by (auto simp: extractAllCodeBlocks_def split: sum.splits option.splits)
qed

lemma compilations_in_order:
  "fst (promiseAll (\<lambda>k example w'. case testCodeCompilation env this k example w' of
                                     (r, w'') \<Rightarrow> (Inr r, w''))
          co (List.enumerate 0 examples) [] w) =
   Inr (map (\<lambda>(k, example). fst (testCodeCompilation env this k example w0))
          (List.enumerate 0 examples))"
  by (rule promiseAll_enumerate[where f = "\<lambda>k example. Inr (fst (testCodeCompilation env this k example w0))"])
     (auto simp: case_prod_unfold intro: testCodeCompilation_world)

lemma compilations_directory:
  "directoryPresent (snd (promiseAll (\<lambda>k example w'. case testCodeCompilation env this k example w' of
                                     (r, w'') \<Rightarrow> (Inr r, w''))
          co tasks vals w)) = directoryPresent w"
proof -
  let ?P = "\<lambda>w' :: world. directoryPresent w' = directoryPresent w"
  have "?P (snd (promiseAll (\<lambda>k example w'. case testCodeCompilation env this k example w' of
                                     (r, w'') \<Rightarrow> (Inr r, w'')) co tasks vals w))"
  proof (rule promiseAll_state[where P = ?P])
    fix k t and s :: world assume "directoryPresent s = directoryPresent w"
    then show "directoryPresent (snd (case testCodeCompilation env this k t s of (r, w'') \<Rightarrow> (Inr r, w''))) = directoryPresent w"
      using testCodeCompilation_directory[of env this k t s] by (simp add: case_prod_unfold)
  qed simp
  then show ?thesis .
qed

lemma compileSnippetsTry_Inr:
  assumes "fault env RemoveBefore = None" "fault env EnsureDir = None"
    and "packageInfoRead env = None" "newLocalImportSubstituter env = None"
    and "readable env files"
  shows "fst (compileSnippetsTry env this eo co files w) = Inr (expectedResults env this files)"
    and "directoryPresent (snd (compileSnippetsTry env this eo co files w))"
  using assms
  by (simp_all add: compileSnippetsTry_def cleanWorkingDirectory_def fsExtra_remove_def
        fsExtra_ensureDir_def extractAllCodeBlocks_Inr compilations_in_order
        compilations_directory expectedResults_def)

lemma compileSnippetsTry_Inl:
  assumes "fst (compileSnippetsTry env this eo co files w) = Inl f"
  shows "(\<exists>t. fault env RemoveBefore = Some t \<and> f = WorkingDirectoryFailure RemoveBefore t)
       \<or> (\<exists>t. fault env EnsureDir = Some t \<and> f = WorkingDirectoryFailure EnsureDir t)
       \<or> (\<exists>t. packageInfoRead env = Some t \<and> f = PackageInfoFailure t)
       \<or> (\<exists>t. newLocalImportSubstituter env = Some t \<and> f = LocalImportSubstituterFailure t)
       \<or> (\<exists>d \<in> set files. \<exists>t. extractBlocks env d = Inl t \<and> f = DocumentFailure d t)"
proof (cases "fault env RemoveBefore")
  case (Some t)
  with assms show ?thesis
    by (simp add: compileSnippetsTry_def cleanWorkingDirectory_def fsExtra_remove_def)
next
  case rb: None
  show ?thesis
  proof (cases "fault env EnsureDir")
    case (Some t)
    with assms rb show ?thesis
      by (simp add: compileSnippetsTry_def cleanWorkingDirectory_def fsExtra_remove_def
            fsExtra_ensureDir_def)
  next
    case ed: None
    show ?thesis
    proof (cases "extractAllCodeBlocks env eo files")
      case (Inl f')
      with assms rb ed have "f' = f"
        by (simp add: compileSnippetsTry_def cleanWorkingDirectory_def fsExtra_remove_def
              fsExtra_ensureDir_def)
      with Inl extractAllCodeBlocks_Inl[of env eo files f] show ?thesis by blast
    next
      case (Inr examples)
      with rb ed have "\<not> isl (fst (compileSnippetsTry env this eo co files w))"
        by (simp add: compileSnippetsTry_def cleanWorkingDirectory_def fsExtra_remove_def
              fsExtra_ensureDir_def compilations_in_order[of _ _ _ _ _ w])
      with assms show ?thesis by simp
    qed
  qed
qed

lemma compileSnippetsTry_unreadable:
  assumes "\<not> readable env files"
  shows "isl (fst (compileSnippetsTry env this eo co files w))"
  using extractAllCodeBlocks_unreadable[OF assms, of eo]
  by (auto simp: compileSnippetsTry_def cleanWorkingDirectory_def fsExtra_remove_def
        fsExtra_ensureDir_def split: option.splits sum.splits)

lemma compileSnippetsTry_faulty:
  assumes "fault env RemoveBefore \<noteq> None \<or> fault env EnsureDir \<noteq> None"
  shows "isl (fst (compileSnippetsTry env this eo co files w))"
  using assms
  by (auto simp: compileSnippetsTry_def cleanWorkingDirectory_def fsExtra_remove_def
        fsExtra_ensureDir_def split: option.splits sum.splits)

lemma compileSnippetsTry_package:
  assumes "packageInfoRead env \<noteq> None \<or> newLocalImportSubstituter env \<noteq> None"
  shows "isl (fst (compileSnippetsTry env this eo co files w))"
  using extractAllCodeBlocks_package[OF assms, of eo files]
  by (auto simp: compileSnippetsTry_def cleanWorkingDirectory_def fsExtra_remove_def
        fsExtra_ensureDir_def split: option.splits sum.splits)

lemma compileSnippets_finally:
  "compileSnippets env this eo co files w =
     (case fault env RemoveAfter of
        Some t \<Rightarrow> (Inl (WorkingDirectoryFailure RemoveAfter t),
                   snd (compileSnippetsTry env this eo co files w))
      | None \<Rightarrow> (fst (compileSnippetsTry env this eo co files w),
                 \<lparr>directoryPresent = False, tempFiles = []\<rparr>))"
  by (simp add: compileSnippets_def cleanWorkingDirectory_def fsExtra_remove_def
        case_prod_unfold split: option.splits)

lemma compileSnippets_Inr_iff:
  "fst (compileSnippets env this eo co files w) = Inr rs \<longleftrightarrow>
     fault env RemoveBefore = None \<and> fault env EnsureDir = None \<and> fault env RemoveAfter = None
     \<and> packageInfoRead env = None \<and> newLocalImportSubstituter env = None
     \<and> readable env files \<and> rs = expectedResults env this files"
proof (cases "fault env RemoveAfter")
  case (Some t)
  then show ?thesis by (simp add: compileSnippets_finally)
next
  case None
  show ?thesis
  proof (cases "fault env RemoveBefore = None \<and> fault env EnsureDir = None
                \<and> packageInfoRead env = None \<and> newLocalImportSubstituter env = None
                \<and> readable env files")
    case True
    with None compileSnippetsTry_Inr(1)[of env files this eo co w] show ?thesis
      by (auto simp: compileSnippets_finally)
  next
    case False
    then have "isl (fst (compileSnippetsTry env this eo co files w))"
      using compileSnippetsTry_unreadable[of env files this eo co w]
        compileSnippetsTry_faulty[of env this eo co files w]
        compileSnippetsTry_package[of env this eo co files w] by blast
    with None False show ?thesis
      by (auto simp: compileSnippets_finally)
  qed
qed

lemma compileSnippets_Inl:
  assumes "fst (compileSnippets env this eo co files w) = Inl f"
  shows "(\<exists>t. fault env RemoveBefore = Some t \<and> f = WorkingDirectoryFailure RemoveBefore t)
       \<or> (\<exists>t. fault env EnsureDir = Some t \<and> f = WorkingDirectoryFailure EnsureDir t)
       \<or> (\<exists>t. fault env RemoveAfter = Some t \<and> f = WorkingDirectoryFailure RemoveAfter t)
       \<or> (\<exists>t. packageInfoRead env = Some t \<and> f = PackageInfoFailure t)
       \<or> (\<exists>t. newLocalImportSubstituter env = Some t \<and> f = LocalImportSubstituterFailure t)
       \<or> (\<exists>d \<in> set files. \<exists>t. extractBlocks env d = Inl t \<and> f = DocumentFailure d t)"
proof (cases "fault env RemoveAfter")
  case (Some t)
  with assms show ?thesis by (simp add: compileSnippets_finally)
next
  case None
  with assms have "fst (compileSnippetsTry env this eo co files w) = Inl f"
    by (simp add: compileSnippets_finally)
  from compileSnippetsTry_Inl[OF this] show ?thesis by blast
qed

lemma testCodeCompilation_fields:
  "resultFile (fst (testCodeCompilation env this k example w)) = blockFile example"
  "resultIndex (fst (testCodeCompilation env this k example w)) = index example"
  "resultSnippet (fst (testCodeCompilation env this k example w)) = snippet example"
  by (simp_all add: testCodeCompilation_def Let_def split: prod.splits option.splits)

lemma codeBlocks_eq:
  "codeBlocks env file =
     map (\<lambda>(i, block). \<lparr>blockFile = file, index = i + 1, snippet = block,
                          sanitisedCode = sanitiseCodeBlock env block\<rparr>)
       (List.enumerate 0 (blocksOf env file))"
  by (simp add: codeBlocks_def blocksOf_def extractFileCodeBlocks_def split: sum.splits)

lemma expectedResults_fields:
  "map (\<lambda>r. (resultFile r, resultIndex r, resultSnippet r)) (expectedResults env this files) =
   concat (map (\<lambda>file. map (\<lambda>(i, block). (file, i + 1, block)) (List.enumerate 0 (blocksOf env file)))
             files)"
proof -
  have "map (\<lambda>r. (resultFile r, resultIndex r, resultSnippet r)) (expectedResults env this files) =
        map (\<lambda>(k, example). (blockFile example, index example, snippet example))
          (List.enumerate 0 (allCodeBlocks env files))"
    by (simp add: expectedResults_def testCodeCompilation_fields case_prod_unfold comp_def)
  also have "\<dots> = map (\<lambda>example. (blockFile example, index example, snippet example))
                    (allCodeBlocks env files)"
    by (rule map_snd_of_enumerate)
  also have "\<dots> = concat (map (\<lambda>file. map (\<lambda>(i, block). (file, i + 1, block))
                                   (List.enumerate 0 (blocksOf env file))) files)"
    by (simp add: allCodeBlocks_def map_concat codeBlocks_eq comp_def case_prod_unfold)
  finally show ?thesis .
qed

section \<open>The two entry points\<close>

text \<open>
  \<^verbatim>\<open>index.ts\<close> exists twice: one version chains the calls on a Bluebird promise, the other
  on a native promise. The argument is a string, an array of strings, or left out (\<open>None\<close>).
  \<^verbatim>\<open>new SnippetCompiler(workingDirectory)\<close> builds the compilation service that
  \<open>compilerCompile\<close> stands for.
\<close>

datatype pathArgument = OnePath jsstring | PathArray "jsstring list"

definition newSnippetCompiler :: "jsstring \<Rightarrow> SnippetCompiler" where
  "newSnippetCompiler dir = \<lparr>workingDirectory = dir\<rparr>"

subsection \<open>The Bluebird version\<close>

definition bluebird_DEFAULT_FILES :: "jsstring list" where
  "bluebird_DEFAULT_FILES = [js ''README.md'']"

definition bluebird_wrapIfString :: "pathArgument \<Rightarrow> jsstring list" where
  "bluebird_wrapIfString arrayOrString =
     (case arrayOrString of PathArray a \<Rightarrow> a | OnePath s \<Rightarrow> [s])"

definition bluebird_compileSnippets ::
  "environment \<Rightarrow> nat list \<Rightarrow> nat list \<Rightarrow> pathArgument option \<Rightarrow> world
     \<Rightarrow> (failure + SnippetCompilationResult list) \<times> world" where
  "bluebird_compileSnippets env extractOrder compileOrder markdownFileOrFiles w =
     (let files = (case markdownFileOrFiles of
                     None \<Rightarrow> PathArray bluebird_DEFAULT_FILES
                   | Some a \<Rightarrow> a);
          dir = path_join (cwd env) (js ''compiled-docs'');
          compiler = newSnippetCompiler dir
      in compileSnippets env compiler extractOrder compileOrder (bluebird_wrapIfString files) w)"

subsection \<open>The native version\<close>

definition DEFAULT_FILES :: "jsstring list" where
  "DEFAULT_FILES = [js ''README.md'']"

definition COMPILED_DOCS_FOLDER :: jsstring where
  "COMPILED_DOCS_FOLDER = js ''compiled-docs''"

definition wrapIfString :: "pathArgument \<Rightarrow> jsstring list" where
  "wrapIfString arrayOrString =
     (case arrayOrString of PathArray a \<Rightarrow> a | OnePath s \<Rightarrow> [s])"

definition native_compileSnippets ::
  "environment \<Rightarrow> nat list \<Rightarrow> nat list \<Rightarrow> pathArgument option \<Rightarrow> world
     \<Rightarrow> (failure + SnippetCompilationResult list) \<times> world" where
  "native_compileSnippets env extractOrder compileOrder markdownFileOrFiles w =
     (let files = (case markdownFileOrFiles of
                     None \<Rightarrow> PathArray DEFAULT_FILES
                   | Some a \<Rightarrow> a);
          dir = path_join (cwd env) COMPILED_DOCS_FOLDER;
          compiler = newSnippetCompiler dir
      in compileSnippets env compiler extractOrder compileOrder (wrapIfString files) w)"

section \<open>The entry points agree\<close>

text \<open>
  C10. The Bluebird version and the native version of the entry point give the same outcome
  and leave the same file system for every argument, environment and order of completion.
  Both take \<^verbatim>\<open>README.md\<close> alone when the argument is left out, make a one-element list of a
  single path and pass a list on as it is, and both call \<^verbatim>\<open>SnippetCompiler.compileSnippets\<close>
  of a compiler whose working directory is \<^verbatim>\<open>compiled-docs\<close> under the current directory.
\<close>

theorem entry_points_equivalent:
  "bluebird_compileSnippets env eo co arg w = native_compileSnippets env eo co arg w
   \<and> bluebird_compileSnippets env eo co None w =
       compileSnippets env \<lparr>workingDirectory = path_join (cwd env) (js ''compiled-docs'')\<rparr>
         eo co [js ''README.md''] w
   \<and> native_compileSnippets env eo co None w =
       compileSnippets env \<lparr>workingDirectory = path_join (cwd env) (js ''compiled-docs'')\<rparr>
         eo co [js ''README.md''] w
   \<and> bluebird_compileSnippets env eo co (Some (OnePath p)) w =
       compileSnippets env \<lparr>workingDirectory = path_join (cwd env) (js ''compiled-docs'')\<rparr>
         eo co [p] w
   \<and> native_compileSnippets env eo co (Some (OnePath p)) w =
       compileSnippets env \<lparr>workingDirectory = path_join (cwd env) (js ''compiled-docs'')\<rparr>
         eo co [p] w
   \<and> bluebird_compileSnippets env eo co (Some (PathArray ps)) w =
       compileSnippets env \<lparr>workingDirectory = path_join (cwd env) (js ''compiled-docs'')\<rparr>
         eo co ps w
   \<and> native_compileSnippets env eo co (Some (PathArray ps)) w =
       compileSnippets env \<lparr>workingDirectory = path_join (cwd env) (js ''compiled-docs'')\<rparr>
         eo co ps w"
  by (simp add: bluebird_compileSnippets_def native_compileSnippets_def
        bluebird_DEFAULT_FILES_def DEFAULT_FILES_def COMPILED_DOCS_FOLDER_def
        bluebird_wrapIfString_def wrapIfString_def newSnippetCompiler_def
      split: option.split pathArgument.split)

section \<open>A sample run\<close>

text \<open>
  A run on three documents: \<^verbatim>\<open>a.md\<close> with the blocks \<^verbatim>\<open>x\<close> and \<^verbatim>\<open>y\<close>, \<^verbatim>\<open>b.md\<close> with none
  and \<^verbatim>\<open>c.md\<close> with the block \<^verbatim>\<open>z\<close>; any other document is missing. The import
  substitution puts \<^verbatim>\<open>// \<close> in front of a block. The compilation of \<^verbatim>\<open>y\<close> fails with a
  \<^verbatim>\<open>TSError\<close> that names the temporary file; everything else succeeds.
\<close>

definition demoError :: "jsstring \<Rightarrow> js_error" where
  "demoError fileName =
     \<lparr>message = fileName @ js ''(2,1): bad'',
      kind = TSError (fileName @ js '':2:1 - bad'' @ [10] @ js ''(7,1)'') True,
      ownEnumerable = [(js ''name'', JSString (js ''TSError'')), (js ''codes'', NotAString)]\<rparr>"

definition demoEnv :: environment where
  "demoEnv =
     \<lparr>hrtime = (\<lambda>k. 10 + k),
      fault = (\<lambda>c. None),
      packageInfoRead = None,
      newLocalImportSubstituter = None,
      substituteLocalPackageImports = (\<lambda>code. js ''// '' @ code),
      extractBlocks = (\<lambda>f. if f = js ''a.md'' then Inr [js ''x'', js ''y'']
                            else if f = js ''b.md'' then Inr []
                            else if f = js ''c.md'' then Inr [js ''z'']
                            else Inl (OtherValue (js ''missing''))),
      compilerCompile = (\<lambda>code fileName. if code = js ''// y''
                                            then Some (ErrorObject (demoError fileName))
                                            else None),
      stripAnsi = (\<lambda>s. s),
      chalkLevel = 0,
      cwd = js ''/''\<rparr>"

definition demoCompiler :: SnippetCompiler where
  "demoCompiler = \<lparr>workingDirectory = js ''/compiled-docs''\<rparr>"

definition demoFiles :: "jsstring list" where
  "demoFiles = [js ''a.md'', js ''b.md'', js ''c.md'']"

definition demoScrubbed :: js_error where
  "demoScrubbed =
     \<lparr>message = js ''a.md '' @ [8594] @ js '' Code Block 2(2,1): bad'',
      kind = TSError (js ''a.md '' @ [8594] @ js '' Code Block 2:2:1 - bad'' @ [10] @ js ''(7,1)'')
               True,
      ownEnumerable = [(js ''name'', JSString (js ''TSError'')), (js ''codes'', NotAString)]\<rparr>"

definition demoResults :: "SnippetCompilationResult list" where
  "demoResults =
     [\<lparr>resultFile = js ''a.md'', resultIndex = 1, resultSnippet = js ''x'',
       linesWithErrors = [], error = None\<rparr>,
      \<lparr>resultFile = js ''a.md'', resultIndex = 2, resultSnippet = js ''y'',
       linesWithErrors = [2, 7],
       error = Some demoScrubbed\<rparr>,
      \<lparr>resultFile = js ''c.md'', resultIndex = 1, resultSnippet = js ''z'',
       linesWithErrors = [], error = None\<rparr>]"

definition emptyWorld :: world where
  "emptyWorld = \<lparr>directoryPresent = False, tempFiles = []\<rparr>"

lemmas string_defs = js_def toString.simps isDigit_def isLineTerminator_def tempFileTail_def replaceAll.simps
  digits1_def ttyFormat_def nonTtyFormat_def orElse_def lineNumber_def parseInt_def digitsValue_def
  numberValue_def enat_numeral setAdd_def errorLines_def chalkStyle_def displayLabel_def removeTemporaryFilePaths_def

lemmas path_defs = js_def toString.simps normalizeStep_def normalizeString_def normalize_def path_join_def

lemma demo_readable: "readable demoEnv demoFiles"
  by (simp add: readable_def demoEnv_def demoFiles_def js_def)

lemma demo_codeFileName:
  "codeFileName demoEnv demoCompiler 1 = js ''/compiled-docs/block-11.ts''"
  by (simp add: codeFileName_def demoEnv_def demoCompiler_def path_defs)

lemma demo_allCodeBlocks:
  "allCodeBlocks demoEnv demoFiles =
     [\<lparr>blockFile = js ''a.md'', index = 1, snippet = js ''x'', sanitisedCode = js ''// x''\<rparr>,
      \<lparr>blockFile = js ''a.md'', index = 2, snippet = js ''y'', sanitisedCode = js ''// y''\<rparr>,
      \<lparr>blockFile = js ''c.md'', index = 1, snippet = js ''z'', sanitisedCode = js ''// z''\<rparr>]"
  by (simp add: allCodeBlocks_def codeBlocks_def extractFileCodeBlocks_def sanitiseCodeBlock_def
        demoEnv_def demoFiles_def js_def)

lemma demo_scrubError:
  "scrubError demoEnv
     \<lparr>blockFile = js ''a.md'', index = 2, snippet = js ''y'', sanitisedCode = js ''// y''\<rparr>
     (ErrorObject (demoError (js ''/compiled-docs/block-11.ts''))) = demoScrubbed"
  by (simp add: scrubError_def toError_def scrubEntries_def scrubValue_def demoError_def
        demoEnv_def demoScrubbed_def string_defs)

lemma demo_fields:
  "stripAnsi demoEnv = (\<lambda>s. s)"
  "fault demoEnv = (\<lambda>c. None)"
  "compilerCompile demoEnv =
     (\<lambda>code fileName. if code = js ''// y'' then Some (ErrorObject (demoError fileName)) else None)"
  "substituteLocalPackageImports demoEnv = (\<lambda>code. js ''// '' @ code)"
  "packageInfoRead demoEnv = None"
  "newLocalImportSubstituter demoEnv = None"
  by (simp_all add: demoEnv_def)

lemma demo_errorLines:
  "(case kind demoScrubbed of
      TSError text enumerable \<Rightarrow> errorLines (stripAnsi demoEnv) text
    | OtherError \<Rightarrow> []) = [2, 7]"
  by (simp add: demoScrubbed_def demo_fields string_defs)

lemma demo_ok:
  "c \<noteq> js ''// y'' \<Longrightarrow>
   fst (testCodeCompilation demoEnv demoCompiler k
          \<lparr>blockFile = f, index = i, snippet = b, sanitisedCode = c\<rparr> w) =
     \<lparr>resultFile = f, resultIndex = i, resultSnippet = b, linesWithErrors = [], error = None\<rparr>"
  by (simp add: testCodeCompilation_def compile_def fsExtra_writeFile_def demo_fields Let_def)

lemma demo_compile_bad:
  "compile demoEnv demoCompiler (Suc 0) (js ''// y'') w =
     (Some (ErrorObject (demoError (js ''/compiled-docs/block-11.ts''))),
      w\<lparr>tempFiles := (js ''/compiled-docs/block-11.ts'', js ''// y'') # tempFiles w\<rparr>)"
  using demo_codeFileName
  by (simp add: compile_def fsExtra_writeFile_def demo_fields Let_def)

lemma demo_bad:
  "fst (testCodeCompilation demoEnv demoCompiler (Suc 0)
          \<lparr>blockFile = js ''a.md'', index = 2, snippet = js ''y'', sanitisedCode = js ''// y''\<rparr> w) =
     \<lparr>resultFile = js ''a.md'', resultIndex = 2, resultSnippet = js ''y'',
      linesWithErrors = [2, 7], error = Some demoScrubbed\<rparr>"
  by (simp add: testCodeCompilation_def demo_compile_bad demo_scrubError demo_errorLines)

lemma demo_expected: "expectedResults demoEnv demoCompiler demoFiles = demoResults"
proof -
  have "js ''// x'' \<noteq> js ''// y''" "js ''// z'' \<noteq> js ''// y''"
    by (simp_all add: js_def)
  then show ?thesis
    by (simp add: expectedResults_def demo_allCodeBlocks demo_ok demo_bad)
       (simp add: demoResults_def)
qed

lemma demo_run:
  "fst (compileSnippets demoEnv demoCompiler eo co demoFiles w) = Inr demoResults"
  by (simp add: compileSnippets_Inr_iff demo_readable demo_expected demo_fields)

lemma demo_run_one:
  "fst (compileSnippets demoEnv demoCompiler eo co [js ''c.md''] w) =
     Inr [\<lparr>resultFile = js ''c.md'', resultIndex = 1, resultSnippet = js ''z'',
           linesWithErrors = [], error = None\<rparr>]"
proof -
  have c: "extractBlocks demoEnv (js ''c.md'') = Inr [js ''z'']"
    by (simp add: demoEnv_def js_def)
  have "js ''// '' @ js ''z'' \<noteq> js ''// y''"
    by (simp add: js_def)
  then have "expectedResults demoEnv demoCompiler [js ''c.md''] =
       [\<lparr>resultFile = js ''c.md'', resultIndex = 1, resultSnippet = js ''z'',
         linesWithErrors = [], error = None\<rparr>]"
    by (simp add: expectedResults_def allCodeBlocks_def codeBlocks_def extractFileCodeBlocks_def
          sanitiseCodeBlock_def c demo_ok demo_fields(4))
  then show ?thesis
    by (simp add: compileSnippets_Inr_iff readable_def c demo_fields)
qed

lemma demo_run_none:
  "fst (compileSnippets demoEnv demoCompiler eo co [js ''b.md''] w) = Inr []"
proof -
  have b: "extractBlocks demoEnv (js ''b.md'') = Inr []"
    by (simp add: demoEnv_def js_def)
  then show ?thesis
    by (simp add: compileSnippets_Inr_iff readable_def demo_fields expectedResults_def
          allCodeBlocks_def codeBlocks_def extractFileCodeBlocks_def)
qed

lemma map_fst_of_enumerate: "map (\<lambda>(i, x). g i) (List.enumerate n xs) = map g [n..<n + length xs]"
proof -
  have "map (\<lambda>(i, x). g i) (List.enumerate n xs) = map (g \<circ> fst) (List.enumerate n xs)"
    by (simp add: comp_def case_prod_unfold)
  also have "\<dots> = map g (map fst (List.enumerate n xs))"
    by (simp only: map_map)
  also have "\<dots> = map g [n..<n + length xs]"
    by (simp only: map_fst_enumerate)
  finally show ?thesis .
qed

section \<open>The order of the results\<close>

text \<open>
  C1. When a call of \<^verbatim>\<open>compileSnippets\<close> returns results, it returns the same results for
  every other order in which the extractions and the compilations complete (and from every
  state of the file system): the results follow the list of documents and, within a document,
  the order in which its blocks were extracted.
\<close>

theorem results_in_document_order:
  assumes "fst (compileSnippets env this eo co files w) = Inr rs"
  shows "fst (compileSnippets env this eo' co' files w') = Inr rs
       \<and> map (\<lambda>r. (resultFile r, resultIndex r, resultSnippet r)) rs =
           concat (map (\<lambda>file. map (\<lambda>(i, block). (file, i + 1, block))
                                 (List.enumerate 0 (blocksOf env file))) files)"
  using assms by (simp add: compileSnippets_Inr_iff expectedResults_fields)

theorem results_in_document_order_witness:
  "fst (compileSnippets demoEnv demoCompiler [] [] demoFiles emptyWorld) = Inr demoResults
   \<and> fst (compileSnippets demoEnv demoCompiler [2, 1] [1, 1] demoFiles emptyWorld) = Inr demoResults
   \<and> map (\<lambda>r. (resultFile r, resultIndex r, resultSnippet r)) demoResults =
       [(js ''a.md'', 1, js ''x''), (js ''a.md'', 2, js ''y''), (js ''c.md'', 1, js ''z'')]"
  using results_in_document_order[OF demo_run[of "[]" "[]" emptyWorld],
          of "[2, 1]" "[1, 1]" emptyWorld]
  by (simp add: demo_run) (simp add: demoResults_def)

section \<open>The snippet of a result\<close>

text \<open>
  C6. The snippets of the results are the blocks of the documents as they were extracted,
  whatever the import substitution does: a code block keeps the extracted block as its snippet
  and gets the substituted text as the code to compile, and a result takes the snippet of its
  code block whether the compilation succeeded or failed.
\<close>

theorem snippet_is_original_block:
  assumes "fst (compileSnippets (env\<lparr>substituteLocalPackageImports := localise\<rparr>)
                  this eo co files w) = Inr rs"
  shows "map resultSnippet rs = concat (map (blocksOf env) files)
       \<and> map (\<lambda>example. (snippet example, sanitisedCode example))
             (codeBlocks (env\<lparr>substituteLocalPackageImports := localise\<rparr>) file) =
           map (\<lambda>block. (block, localise block)) (blocksOf env file)
       \<and> resultSnippet (fst (testCodeCompilation env this k example w')) = snippet example"
proof -
  let ?env = "env\<lparr>substituteLocalPackageImports := localise\<rparr>"
  have same: "blocksOf ?env = blocksOf env"
    by (simp add: blocksOf_def fun_eq_iff)
  have "map resultSnippet rs =
        map (\<lambda>(f, i, b). b) (map (\<lambda>r. (resultFile r, resultIndex r, resultSnippet r)) rs)"
    by (simp add: comp_def)
  also have "\<dots> = concat (map (blocksOf ?env) files)"
    using assms
    by (simp add: compileSnippets_Inr_iff expectedResults_fields map_concat comp_def
          case_prod_unfold
          map_snd_of_enumerate[where g = "\<lambda>b. b", unfolded case_prod_unfold, simplified])
  finally have "map resultSnippet rs = concat (map (blocksOf env) files)"
    by (simp add: same)
  moreover have "map (\<lambda>example. (snippet example, sanitisedCode example)) (codeBlocks ?env file) =
                 map (\<lambda>block. (block, localise block)) (blocksOf env file)"
    by (simp add: codeBlocks_eq same comp_def case_prod_unfold sanitiseCodeBlock_def
          map_snd_of_enumerate[where g = "\<lambda>b. (b, localise b)", unfolded case_prod_unfold])
  ultimately show ?thesis
    by (simp add: testCodeCompilation_fields)
qed

theorem snippet_is_original_block_witness:
  "fst (compileSnippets (demoEnv\<lparr>substituteLocalPackageImports := (\<lambda>code. js ''// '' @ code)\<rparr>)
          demoCompiler [] [] demoFiles emptyWorld) = Inr demoResults
   \<and> map resultSnippet demoResults = [js ''x'', js ''y'', js ''z'']
   \<and> concat (map (blocksOf demoEnv) demoFiles) = [js ''x'', js ''y'', js ''z'']"
proof -
  have env: "demoEnv\<lparr>substituteLocalPackageImports := (\<lambda>code. js ''// '' @ code)\<rparr> = demoEnv"
    by (simp add: demoEnv_def)
  have run: "fst (compileSnippets
                    (demoEnv\<lparr>substituteLocalPackageImports := (\<lambda>code. js ''// '' @ code)\<rparr>)
                    demoCompiler [] [] demoFiles emptyWorld) = Inr demoResults"
    by (simp only: env demo_run)
  from snippet_is_original_block[OF run] run show ?thesis
    by (simp add: demoResults_def)
qed

section \<open>The indices of the results\<close>

text \<open>
  C7. The results of a run list, document after document, one result for each block of the
  document, with the indices 1, 2, ... up to the number of its blocks; so a run on one
  document with \<open>N\<close> blocks gives \<open>N\<close> results with the indices 1 to \<open>N\<close>, and none when the
  document has no block.
\<close>

theorem indices_dense_per_document:
  assumes "fst (compileSnippets env this eo co files w) = Inr rs"
  shows "map (\<lambda>r. (resultFile r, resultIndex r)) rs =
           concat (map (\<lambda>file. map (\<lambda>i. (file, i)) [1..<Suc (length (blocksOf env file))]) files)
       \<and> (files = [d] \<longrightarrow>
            length rs = length (blocksOf env d)
          \<and> map resultIndex rs = [1..<Suc (length (blocksOf env d))]
          \<and> (blocksOf env d = [] \<longrightarrow> rs = []))"
proof -
  have idx: "map (\<lambda>(i, block). (f, i + 1)) (List.enumerate 0 bs) =
             map (\<lambda>i. (f, i)) [1..<Suc (length bs)]" for f :: jsstring and bs :: "jsstring list"
  proof -
    have "map (\<lambda>(i, block). (f, i + 1)) (List.enumerate 0 bs) = map (\<lambda>i. (f, i + 1)) [0..<0 + length bs]"
      by (rule map_fst_of_enumerate)
    also have "\<dots> = map (\<lambda>i. (f, i)) (map Suc [0..<length bs])"
      by (simp add: comp_def)
    also have "map Suc [0..<length bs] = [1..<Suc (length bs)]"
      by (simp add: map_Suc_upt)
    finally show ?thesis .
  qed
  have "map (\<lambda>r. (resultFile r, resultIndex r)) rs =
        map (\<lambda>(f, i, b). (f, i)) (map (\<lambda>r. (resultFile r, resultIndex r, resultSnippet r)) rs)"
    by (simp add: comp_def)
  also have "\<dots> = concat (map (\<lambda>file. map (\<lambda>(i, block). (file, i + 1))
                                    (List.enumerate 0 (blocksOf env file))) files)"
    using assms
    by (simp add: compileSnippets_Inr_iff expectedResults_fields map_concat comp_def
          case_prod_unfold)
  finally have all: "map (\<lambda>r. (resultFile r, resultIndex r)) rs =
      concat (map (\<lambda>file. map (\<lambda>i. (file, i)) [1..<Suc (length (blocksOf env file))]) files)"
    by (simp only: idx)
  have one: "length rs = length (blocksOf env d)
           \<and> map resultIndex rs = [1..<Suc (length (blocksOf env d))]
           \<and> (blocksOf env d = [] \<longrightarrow> rs = [])" if "files = [d]"
  proof -
    from all that
    have eq: "map (\<lambda>r. (resultFile r, resultIndex r)) rs =
              map (\<lambda>i. (d, i)) [1..<Suc (length (blocksOf env d))]"
      by (simp del: upt_Suc)
    from arg_cong[OF eq, of length] have len: "length rs = length (blocksOf env d)"
      by (simp del: upt_Suc)
    from arg_cong[OF eq, of "map snd"]
    have "map resultIndex rs = [1..<Suc (length (blocksOf env d))]"
      by (simp add: comp_def del: upt_Suc)
    with len show ?thesis by auto
  qed
  from all one show ?thesis by blast
qed

theorem indices_dense_per_document_witness:
  "fst (compileSnippets demoEnv demoCompiler [] [] demoFiles emptyWorld) = Inr demoResults
   \<and> map (\<lambda>r. (resultFile r, resultIndex r)) demoResults =
       [(js ''a.md'', 1), (js ''a.md'', 2), (js ''c.md'', 1)]
   \<and> map (length \<circ> blocksOf demoEnv) demoFiles = [2, 0, 1]
   \<and> fst (compileSnippets demoEnv demoCompiler [] [] [js ''c.md''] emptyWorld) =
       Inr [\<lparr>resultFile = js ''c.md'', resultIndex = 1, resultSnippet = js ''z'',
             linesWithErrors = [], error = None\<rparr>]
   \<and> fst (compileSnippets demoEnv demoCompiler [] [] [js ''b.md''] emptyWorld) = Inr []"
  using indices_dense_per_document[OF demo_run[of "[]" "[]" emptyWorld], of "js ''a.md''"]
    indices_dense_per_document[OF demo_run_one[of "[]" "[]" emptyWorld], of "js ''c.md''"]
    indices_dense_per_document[OF demo_run_none[of "[]" "[]" emptyWorld], of "js ''b.md''"]
    demo_run[of "[]" "[]" emptyWorld] demo_run_one[of "[]" "[]" emptyWorld]
    demo_run_none[of "[]" "[]" emptyWorld]
  by (simp add: demoResults_def demoFiles_def blocksOf_def demoEnv_def js_def)

lemma testCodeCompilation_error:
  "error (fst (testCodeCompilation env this k example w)) =
     map_option (scrubError env example) (fst (compile env this k (sanitisedCode example) w))"
  by (simp add: testCodeCompilation_def Let_def split: prod.splits option.splits)

lemma testCodeCompilation_no_lines:
  "fst (compile env this k (sanitisedCode example) w) = None \<Longrightarrow>
   linesWithErrors (fst (testCodeCompilation env this k example w)) = []"
  by (auto simp: testCodeCompilation_def Let_def split: prod.splits option.splits)

lemma compileSnippetsTry_prepared:
  assumes "fault env RemoveBefore = None" "fault env EnsureDir = None"
    and "extractAllCodeBlocks env eo files = Inr examples"
  shows "compileSnippetsTry env this eo co files w =
         promiseAll (\<lambda>k example w'. case testCodeCompilation env this k example w' of
                                      (r, w'') \<Rightarrow> (Inr r, w''))
           co (List.enumerate 0 examples) [] \<lparr>directoryPresent = True, tempFiles = []\<rparr>"
  using assms
  by (cases w)
     (simp add: compileSnippetsTry_def cleanWorkingDirectory_def fsExtra_remove_def
        fsExtra_ensureDir_def)

lemma compileSnippetsTry_directory:
  assumes "fault env RemoveBefore = None" "fault env EnsureDir = None"
  shows "directoryPresent (snd (compileSnippetsTry env this eo co files w))"
  using assms
  by (simp add: compileSnippetsTry_def cleanWorkingDirectory_def fsExtra_remove_def
        fsExtra_ensureDir_def compilations_directory split: sum.splits)

section \<open>Failures of a compilation and failures of the call\<close>

text \<open>
  C2 (as the code has it). A call of \<^verbatim>\<open>compileSnippets\<close> returns its results, one for each
  code block, whenever the three calls on the working directory succeed, the package definition
  is read, the import substituter is built and every document can be read, whatever the
  compilations and the writes of the temporary files throw. When the call fails, it fails with
  what one of the three calls on the working directory threw, with what \<^verbatim>\<open>PackageInfo.read()\<close>
  or the constructor of \<^verbatim>\<open>LocalImportSubstituter\<close> threw, or with what the extraction of one
  of the requested documents threw. What a compilation throws becomes the error of the result of
  its block, and the error of a result is absent exactly when its \<^verbatim>\<open>linesWithErrors\<close> is empty
  and the compilation threw nothing.
\<close>

theorem compilation_failures_become_results:
  "(fault env RemoveBefore = None \<and> fault env EnsureDir = None \<and> fault env RemoveAfter = None
      \<and> packageInfoRead env = None \<and> newLocalImportSubstituter env = None
      \<and> readable env files \<longrightarrow>
      fst (compileSnippets env this eo co files w) = Inr (expectedResults env this files)
      \<and> length (expectedResults env this files) = length (allCodeBlocks env files))
   \<and> (fst (compileSnippets env this eo co files w) = Inl f \<longrightarrow>
        (\<exists>t. fault env RemoveBefore = Some t \<and> f = WorkingDirectoryFailure RemoveBefore t)
      \<or> (\<exists>t. fault env EnsureDir = Some t \<and> f = WorkingDirectoryFailure EnsureDir t)
      \<or> (\<exists>t. fault env RemoveAfter = Some t \<and> f = WorkingDirectoryFailure RemoveAfter t)
      \<or> (\<exists>t. packageInfoRead env = Some t \<and> f = PackageInfoFailure t)
      \<or> (\<exists>t. newLocalImportSubstituter env = Some t \<and> f = LocalImportSubstituterFailure t)
      \<or> (\<exists>d \<in> set files. \<exists>t. extractBlocks env d = Inl t \<and> f = DocumentFailure d t))
   \<and> (fst (compile env this k (sanitisedCode example) w') = Some rawError \<longrightarrow>
        error (fst (testCodeCompilation env this k example w')) =
          Some (scrubError env example rawError))
   \<and> (error (fst (testCodeCompilation env this k example w')) = None \<longleftrightarrow>
        linesWithErrors (fst (testCodeCompilation env this k example w')) = []
        \<and> fst (compile env this k (sanitisedCode example) w') = None)"
proof -
  have "length (expectedResults env this files) = length (allCodeBlocks env files)"
    by (simp add: expectedResults_def)
  moreover have "error (fst (testCodeCompilation env this k example w')) = None \<longleftrightarrow>
        linesWithErrors (fst (testCodeCompilation env this k example w')) = []
        \<and> fst (compile env this k (sanitisedCode example) w') = None"
    using testCodeCompilation_no_lines[of env this k example w']
    by (auto simp: testCodeCompilation_error)
  ultimately show ?thesis
    using compileSnippets_Inl[of env this eo co files w f]
    by (simp add: compileSnippets_Inr_iff testCodeCompilation_error)
qed

definition missingFiles :: "jsstring list" where
  "missingFiles = [js ''a.md'', js ''no.md'']"

text \<open>
  An environment in which the package definition cannot be read: every requested document is
  there and every call on the working directory succeeds, and the call fails with what
  \<^verbatim>\<open>PackageInfo.read()\<close> threw.
\<close>

definition noPackageEnv :: environment where
  "noPackageEnv = demoEnv\<lparr>packageInfoRead := Some (OtherValue (js ''ENOENT''))\<rparr>"

theorem package_failure_fails_the_call:
  "fst (compileSnippets noPackageEnv demoCompiler [] [] demoFiles emptyWorld) =
     Inl (PackageInfoFailure (OtherValue (js ''ENOENT'')))
   \<and> map (\<lambda>d. isl (extractBlocks noPackageEnv d)) demoFiles = [False, False, False]
   \<and> map (fault noPackageEnv) [RemoveBefore, EnsureDir, RemoveAfter] = [None, None, None]"
  by (simp add: compileSnippets_finally compileSnippetsTry_def cleanWorkingDirectory_def
        fsExtra_remove_def fsExtra_ensureDir_def extractAllCodeBlocks_def noPackageEnv_def
        demoEnv_def demoFiles_def emptyWorld_def js_def)

theorem compilation_failures_become_results_witness:
  "fst (compileSnippets demoEnv demoCompiler [] [] demoFiles emptyWorld) = Inr demoResults
   \<and> map (\<lambda>r. error r = None) demoResults = [True, False, True]
   \<and> fst (compile demoEnv demoCompiler 1 (js ''// y'') emptyWorld) =
       Some (ErrorObject (demoError (js ''/compiled-docs/block-11.ts'')))
   \<and> error (demoResults ! 1) =
       Some (scrubError demoEnv
               \<lparr>blockFile = js ''a.md'', index = 2, snippet = js ''y'', sanitisedCode = js ''// y''\<rparr>
               (ErrorObject (demoError (js ''/compiled-docs/block-11.ts''))))
   \<and> fst (compileSnippets demoEnv demoCompiler [] [] missingFiles emptyWorld) =
       Inl (DocumentFailure (js ''no.md'') (OtherValue (js ''missing'')))"
proof -
  note run = compilation_failures_become_results[of demoEnv demoFiles demoCompiler "[]" "[]"
      emptyWorld _ 1
      "\<lparr>blockFile = js ''a.md'', index = 2, snippet = js ''y'', sanitisedCode = js ''// y''\<rparr>"
      emptyWorld "ErrorObject (demoError (js ''/compiled-docs/block-11.ts''))"]
  have 1: "fst (compileSnippets demoEnv demoCompiler [] [] demoFiles emptyWorld) = Inr demoResults"
    using run demo_readable by (simp add: demo_fields demo_expected)
  have 2: "map (\<lambda>r. error r = None) demoResults = [True, False, True]"
    by (simp add: demoResults_def)
  have 3: "fst (compile demoEnv demoCompiler 1 (js ''// y'') emptyWorld) =
       Some (ErrorObject (demoError (js ''/compiled-docs/block-11.ts'')))"
    by (simp add: demo_compile_bad)
  have 4: "error (demoResults ! 1) =
       Some (scrubError demoEnv
               \<lparr>blockFile = js ''a.md'', index = 2, snippet = js ''y'', sanitisedCode = js ''// y''\<rparr>
               (ErrorObject (demoError (js ''/compiled-docs/block-11.ts''))))"
    using run 3 by (simp add: demoResults_def demo_bad)
  have a: "extractBlocks demoEnv (js ''a.md'') = Inr [js ''x'', js ''y'']"
    and n: "extractBlocks demoEnv (js ''no.md'') = Inl (OtherValue (js ''missing''))"
    by (simp_all add: demoEnv_def js_def)
  have "\<not> readable demoEnv missingFiles"
    by (simp add: readable_def missingFiles_def a n)
  then have "isl (fst (compileSnippets demoEnv demoCompiler [] [] missingFiles emptyWorld))"
    using compileSnippetsTry_unreadable[of demoEnv missingFiles demoCompiler "[]" "[]" emptyWorld]
    by (simp add: compileSnippets_finally demo_fields)
  then obtain f where f: "fst (compileSnippets demoEnv demoCompiler [] [] missingFiles emptyWorld) = Inl f"
    by (cases "fst (compileSnippets demoEnv demoCompiler [] [] missingFiles emptyWorld)") auto
  with compilation_failures_become_results[of demoEnv missingFiles demoCompiler "[]" "[]" emptyWorld f]
  have "f = DocumentFailure (js ''no.md'') (OtherValue (js ''missing''))"
    by (auto simp: demo_fields missingFiles_def a n)
  with f 1 2 3 4 show ?thesis by blast
qed

section \<open>The working directory\<close>

text \<open>
  C5 (as the code has it). The removal of the working directory in the \<^verbatim>\<open>finally\<close> block is
  attempted on every path. When it succeeds, the call ends with the working directory and its
  files gone, whether it returns results or fails. When it throws, the call fails with what it
  threw, and the directory is left as the \<^verbatim>\<open>try\<close> block left it. When the removal and the
  creation at the start succeed, the directory is there from then to the end of the \<^verbatim>\<open>try\<close>
  block, and the compilations start in a directory that is present and empty.
\<close>

theorem working_directory_cleanup:
  "(fault env RemoveAfter = None \<longrightarrow>
      snd (compileSnippets env this eo co files w) = \<lparr>directoryPresent = False, tempFiles = []\<rparr>)
   \<and> (fault env RemoveAfter = Some t \<longrightarrow>
        compileSnippets env this eo co files w =
          (Inl (WorkingDirectoryFailure RemoveAfter t),
           snd (compileSnippetsTry env this eo co files w)))
   \<and> (fault env RemoveBefore = None \<and> fault env EnsureDir = None \<longrightarrow>
        directoryPresent (snd (compileSnippetsTry env this eo co files w))
      \<and> (extractAllCodeBlocks env eo files = Inr examples \<longrightarrow>
           compileSnippetsTry env this eo co files w =
             promiseAll (\<lambda>k example w'. case testCodeCompilation env this k example w' of
                                          (r, w'') \<Rightarrow> (Inr r, w''))
               co (List.enumerate 0 examples) [] \<lparr>directoryPresent = True, tempFiles = []\<rparr>))"
  using compileSnippetsTry_prepared[of env eo files examples this co w]
    compileSnippetsTry_directory[of env this eo co files w]
  by (simp add: compileSnippets_finally)

text \<open>
  An environment in which the removal in the \<^verbatim>\<open>finally\<close> block throws: the call ends, with
  a failure, and the working directory is still there.
\<close>

definition busyEnv :: environment where
  "busyEnv = demoEnv\<lparr>fault := (\<lambda>c. if c = RemoveAfter then Some (OtherValue (js ''EBUSY''))
                                     else None)\<rparr>"

definition staleWorld :: world where
  "staleWorld = \<lparr>directoryPresent = True, tempFiles = [(js ''/compiled-docs/old.ts'', js ''old'')]\<rparr>"

theorem working_directory_cleanup_witness:
  "snd (compileSnippets demoEnv demoCompiler [] [] demoFiles staleWorld) =
     \<lparr>directoryPresent = False, tempFiles = []\<rparr>
   \<and> snd (compileSnippets demoEnv demoCompiler [] [] missingFiles staleWorld) =
     \<lparr>directoryPresent = False, tempFiles = []\<rparr>
   \<and> directoryPresent (snd (compileSnippetsTry demoEnv demoCompiler [] [] demoFiles staleWorld))
   \<and> fst (compileSnippets busyEnv demoCompiler [] [] demoFiles staleWorld) =
       Inl (WorkingDirectoryFailure RemoveAfter (OtherValue (js ''EBUSY'')))"
  using working_directory_cleanup[of demoEnv demoCompiler "[]" "[]" demoFiles staleWorld]
    working_directory_cleanup[of demoEnv demoCompiler "[]" "[]" missingFiles staleWorld]
    working_directory_cleanup[of busyEnv demoCompiler "[]" "[]" demoFiles staleWorld
      "OtherValue (js ''EBUSY'')"]
  by (simp add: demo_fields busyEnv_def)

theorem working_directory_left_behind:
  "directoryPresent (snd (compileSnippets busyEnv demoCompiler [] [] demoFiles emptyWorld))"
proof -
  have "fault busyEnv RemoveBefore = None" "fault busyEnv EnsureDir = None"
    "fault busyEnv RemoveAfter = Some (OtherValue (js ''EBUSY''))"
    by (simp_all add: busyEnv_def)
  then show ?thesis
    by (simp add: compileSnippets_finally compileSnippetsTry_directory)
qed

section \<open>Decimal digits\<close>

text \<open>
  \<^verbatim>\<open>toString\<close> writes decimal digits and \<^verbatim>\<open>parseInt\<close> reads them back, zeros in front or
  not; below \<open>2^53\<close> the \<^verbatim>\<open>number\<close> it gives is the value of the digits.
\<close>

lemma stripPrefix_append [simp]: "stripPrefix p (p @ r) = Some r"
  by (simp add: stripPrefix_Some)

lemma toString_digits: "\<forall>c \<in> set (toString n). isDigit c"
proof (induction n rule: toString.induct)
  case (1 n)
  show ?case
  proof (cases "n < 10")
    case True
    then show ?thesis by (subst toString.simps) (simp add: isDigit_def)
  next
    case False
    have "n mod 10 < 10" by simp
    then have "isDigit (48 + n mod 10)" unfolding isDigit_def by linarith
    with 1 False show ?thesis by (subst toString.simps) auto
  qed
qed

lemma toString_not_empty: "toString n \<noteq> []"
  by (subst toString.simps) simp

lemma digitsValue_snoc: "digitsValue (ds @ [d]) = 10 * digitsValue ds + (d - 48)"
  by (simp add: digitsValue_def)

lemma digitsValue_toString: "digitsValue (toString n) = n"
proof (induction n rule: toString.induct)
  case (1 n)
  show ?case
  proof (cases "n < 10")
    case True
    then show ?thesis by (subst toString.simps) (simp add: digitsValue_def)
  next
    case False
    with 1 have "digitsValue (toString (n div 10)) = n div 10" by simp
    with False show ?thesis
      by (subst toString.simps) (simp add: digitsValue_snoc)
  qed
qed

lemma digitsValue_zeros: "digitsValue (replicate z 48 @ ds) = digitsValue ds"
proof -
  have "foldl (\<lambda>a c. 10 * a + (c - 48)) (0::nat) (replicate z 48) = 0"
    by (induction z) simp_all
  then show ?thesis by (simp add: digitsValue_def)
qed

lemma numberValue_exact: "n < 2 ^ 53 \<Longrightarrow> numberValue n = enat n"
  by (simp add: numberValue_def)

lemma parseInt_digits:
  "ds \<noteq> [] \<Longrightarrow> list_all isDigit ds \<Longrightarrow>
   parseInt (Some ds) = Some (numberValue (digitsValue ds))"
  by (simp add: parseInt_def list_all_iff takeWhile_eq_all_conv[THEN iffD2]
        del: takeWhile_eq_all_conv)

lemma parseInt_decimal:
  assumes "v < 2 ^ 53"
  shows "parseInt (Some (replicate z 48 @ toString v)) = Some (enat v)"
proof -
  have "list_all isDigit (replicate z 48 @ toString v)"
    using toString_digits[of v] by (auto simp: list_all_iff isDigit_def)
  moreover have "replicate z 48 @ toString v \<noteq> []"
    by (simp add: toString_not_empty)
  ultimately have "parseInt (Some (replicate z 48 @ toString v)) =
      Some (numberValue (digitsValue (replicate z 48 @ toString v)))"
    by (rule parseInt_digits[rotated])
  then show ?thesis
    using assms by (simp add: digitsValue_zeros digitsValue_toString numberValue_exact)
qed

text \<open>Above \<open>2^53\<close> not every integer is a \<^verbatim>\<open>number\<close>: \<open>2^53 + 1\<close> and \<open>2^53 + 3\<close> are rounded.\<close>

lemma numberValue_rounds:
  "numberValue 9007199254740993 = 9007199254740992"
  "numberValue 9007199254740995 = 9007199254740996"
  by (simp_all add: numberValue_def bitLength.simps Let_def enat_numeral)

section \<open>The two formats\<close>

text \<open>
  What the two alternatives of the pattern match at the head of a string, and what
  \<^verbatim>\<open>match\<close> finds in a line: the alternative that matches at the leftmost position where
  one of them matches.
\<close>

lemma digits1_iff:
  "digits1 s = Some (ds, r) \<longleftrightarrow>
     ds \<noteq> [] \<and> list_all isDigit ds \<and> s = ds @ r \<and> (r = [] \<or> \<not> isDigit (hd r))"
proof
  assume "digits1 s = Some (ds, r)"
  then have ds: "ds = takeWhile isDigit s" "r = dropWhile isDigit s" "ds \<noteq> []"
    by (auto simp: digits1_def split: if_splits)
  have "list_all isDigit ds"
    unfolding ds by (auto simp: list_all_iff dest: set_takeWhileD)
  moreover have "r = [] \<or> \<not> isDigit (hd r)"
    unfolding ds using hd_dropWhile[of isDigit s] by blast
  ultimately show "ds \<noteq> [] \<and> list_all isDigit ds \<and> s = ds @ r \<and> (r = [] \<or> \<not> isDigit (hd r))"
    using ds by simp
next
  assume a: "ds \<noteq> [] \<and> list_all isDigit ds \<and> s = ds @ r \<and> (r = [] \<or> \<not> isDigit (hd r))"
  then have "takeWhile isDigit s = ds" "dropWhile isDigit s = r"
    by (cases r; auto simp: list_all_iff takeWhile_append2 dropWhile_append2)+
  with a show "digits1 s = Some (ds, r)"
    by (simp add: digits1_def)
qed

lemma digits1_head:
  "ds \<noteq> [] \<Longrightarrow> list_all isDigit ds \<Longrightarrow> \<exists>ds' r. digits1 (ds @ rest) = Some (ds', r)"
  by (cases ds) (auto simp: digits1_def)

lemma ttyFormat_iff:
  "ttyFormat s = Some l \<longleftrightarrow>
     (\<exists>b c rest. b \<noteq> [] \<and> list_all isDigit b \<and> l \<noteq> [] \<and> list_all isDigit l
        \<and> c \<noteq> [] \<and> list_all isDigit c
        \<and> s = js ''Code Block '' @ b @ js '':'' @ l @ js '':'' @ c @ rest)"
proof
  assume "ttyFormat s = Some l"
  then obtain s1 b s2 s3 s4 s5 c s6 where
    "s = js ''Code Block '' @ s1" "digits1 s1 = Some (b, s2)" "s2 = js '':'' @ s3"
    "digits1 s3 = Some (l, s4)" "s4 = js '':'' @ s5" "digits1 s5 = Some (c, s6)"
    by (auto simp: ttyFormat_def stripPrefix_Some split: option.splits)
  then show "\<exists>b c rest. b \<noteq> [] \<and> list_all isDigit b \<and> l \<noteq> [] \<and> list_all isDigit l
        \<and> c \<noteq> [] \<and> list_all isDigit c
        \<and> s = js ''Code Block '' @ b @ js '':'' @ l @ js '':'' @ c @ rest"
    unfolding digits1_iff by auto
next
  assume "\<exists>b c rest. b \<noteq> [] \<and> list_all isDigit b \<and> l \<noteq> [] \<and> list_all isDigit l
        \<and> c \<noteq> [] \<and> list_all isDigit c
        \<and> s = js ''Code Block '' @ b @ js '':'' @ l @ js '':'' @ c @ rest"
  then obtain b c rest where b: "b \<noteq> []" "list_all isDigit b" and l: "l \<noteq> []" "list_all isDigit l"
    and c: "c \<noteq> []" "list_all isDigit c"
    and s: "s = js ''Code Block '' @ b @ js '':'' @ l @ js '':'' @ c @ rest"
    by blast
  have colon: "js '':'' = [58]" "\<not> isDigit 58" by (simp_all add: js_def isDigit_def)
  have 1: "digits1 (b @ js '':'' @ l @ js '':'' @ c @ rest) = Some (b, js '':'' @ l @ js '':'' @ c @ rest)"
    unfolding digits1_iff using b colon by simp
  have 2: "digits1 (l @ js '':'' @ c @ rest) = Some (l, js '':'' @ c @ rest)"
    unfolding digits1_iff using l colon by simp
  obtain c' r where 3: "digits1 (c @ rest) = Some (c', r)"
    using digits1_head[OF c] by blast
  show "ttyFormat s = Some l"
    unfolding s ttyFormat_def by (simp add: 1 2 3)
qed

lemma nonTtyFormat_iff:
  "nonTtyFormat s = Some l \<longleftrightarrow>
     (\<exists>c rest. l \<noteq> [] \<and> list_all isDigit l \<and> c \<noteq> [] \<and> list_all isDigit c
        \<and> s = js ''('' @ l @ js '','' @ c @ js '')'' @ rest)"
proof
  assume "nonTtyFormat s = Some l"
  then obtain s1 s2 s3 c s4 s5 where
    "s = js ''('' @ s1" "digits1 s1 = Some (l, s2)" "s2 = js '','' @ s3"
    "digits1 s3 = Some (c, s4)" "s4 = js '')'' @ s5"
    by (auto simp: nonTtyFormat_def stripPrefix_Some split: option.splits)
  then show "\<exists>c rest. l \<noteq> [] \<and> list_all isDigit l \<and> c \<noteq> [] \<and> list_all isDigit c
        \<and> s = js ''('' @ l @ js '','' @ c @ js '')'' @ rest"
    unfolding digits1_iff by auto
next
  assume "\<exists>c rest. l \<noteq> [] \<and> list_all isDigit l \<and> c \<noteq> [] \<and> list_all isDigit c
        \<and> s = js ''('' @ l @ js '','' @ c @ js '')'' @ rest"
  then obtain c rest where l: "l \<noteq> []" "list_all isDigit l"
    and c: "c \<noteq> []" "list_all isDigit c"
    and s: "s = js ''('' @ l @ js '','' @ c @ js '')'' @ rest"
    by blast
  have sep: "js '','' = [44]" "\<not> isDigit 44" "js '')'' = [41]" "\<not> isDigit 41"
    by (simp_all add: js_def isDigit_def)
  have 1: "digits1 (l @ js '','' @ c @ js '')'' @ rest) = Some (l, js '','' @ c @ js '')'' @ rest)"
    unfolding digits1_iff using l sep by simp
  have 2: "digits1 (c @ js '')'' @ rest) = Some (c, js '')'' @ rest)"
    unfolding digits1_iff using c sep by simp
  show "nonTtyFormat s = Some l"
    unfolding s nonTtyFormat_def by (simp add: 1 2)
qed

lemma ttyFormat_hd: "ttyFormat s = Some l \<Longrightarrow> s \<noteq> [] \<and> hd s = 67"
  unfolding ttyFormat_iff by (auto simp: js_def)

lemma nonTtyFormat_hd: "nonTtyFormat s = Some l \<Longrightarrow> s \<noteq> [] \<and> hd s = 40"
  unfolding nonTtyFormat_iff by (auto simp: js_def)

lemma formats_Nil: "ttyFormat [] = None" "nonTtyFormat [] = None"
  by (simp_all add: ttyFormat_def nonTtyFormat_def js_def)

lemma lineNumberMatch_None_iff:
  "lineNumberMatch line = None \<longleftrightarrow>
     (\<forall>pre s. line = pre @ s \<longrightarrow> ttyFormat s = None \<and> nonTtyFormat s = None)"
proof (induction line)
  case Nil
  then show ?case by (simp add: formats_Nil)
next
  case (Cons c cs)
  show ?case
  proof (cases "ttyFormat (c # cs) = None \<and> nonTtyFormat (c # cs) = None")
    case False
    then have "lineNumberMatch (c # cs) \<noteq> None"
      by (auto split: option.splits)
    moreover from False have "\<not> (\<forall>pre s. c # cs = pre @ s \<longrightarrow> ttyFormat s = None \<and> nonTtyFormat s = None)"
      by (metis append_Nil)
    ultimately show ?thesis by blast
  next
    case True
    then have "lineNumberMatch (c # cs) = lineNumberMatch cs" by simp
    moreover have "(\<forall>pre s. c # cs = pre @ s \<longrightarrow> ttyFormat s = None \<and> nonTtyFormat s = None) \<longleftrightarrow>
                   (\<forall>pre s. cs = pre @ s \<longrightarrow> ttyFormat s = None \<and> nonTtyFormat s = None)"
      using True by (auto simp: Cons_eq_append_conv)
    ultimately show ?thesis using Cons.IH by simp
  qed
qed

lemma lineNumberMatch_Some_iff:
  "lineNumberMatch line = Some g \<longleftrightarrow>
     (\<exists>pre s l. line = pre @ s
        \<and> (ttyFormat s = Some l \<and> g = (Some l, None)
           \<or> nonTtyFormat s = Some l \<and> g = (None, Some l))
        \<and> (\<forall>pre' s'. line = pre' @ s' \<and> length pre' < length pre \<longrightarrow>
              ttyFormat s' = None \<and> nonTtyFormat s' = None))"
  (is "?L line \<longleftrightarrow> ?R line")
proof (induction line)
  case Nil
  then show ?case by (simp add: formats_Nil)
next
  case (Cons c cs)
  show ?case
  proof (cases "ttyFormat (c # cs) = None \<and> nonTtyFormat (c # cs) = None")
    case False
    have here: "?L (c # cs) \<longleftrightarrow>
        (\<exists>l. ttyFormat (c # cs) = Some l \<and> g = (Some l, None)
            \<or> nonTtyFormat (c # cs) = Some l \<and> g = (None, Some l))"
      using False ttyFormat_hd[of "c # cs"] nonTtyFormat_hd[of "c # cs"]
      by (auto split: option.splits)
    have "?R (c # cs) \<longleftrightarrow>
        (\<exists>l. ttyFormat (c # cs) = Some l \<and> g = (Some l, None)
            \<or> nonTtyFormat (c # cs) = Some l \<and> g = (None, Some l))"
    proof
      assume "?R (c # cs)"
      then obtain pre s l where r: "c # cs = pre @ s"
        "ttyFormat s = Some l \<and> g = (Some l, None) \<or> nonTtyFormat s = Some l \<and> g = (None, Some l)"
        "\<forall>pre' s'. c # cs = pre' @ s' \<and> length pre' < length pre \<longrightarrow>
              ttyFormat s' = None \<and> nonTtyFormat s' = None"
        by blast
      have "pre = []"
      proof (rule ccontr)
        assume "pre \<noteq> []"
        then have "c # cs = [] @ (c # cs) \<and> length ([] :: jsstring) < length pre" by simp
        with r(3) have "ttyFormat (c # cs) = None \<and> nonTtyFormat (c # cs) = None" by blast
        with False show False by simp
      qed
      with r(1,2) show "\<exists>l. ttyFormat (c # cs) = Some l \<and> g = (Some l, None)
            \<or> nonTtyFormat (c # cs) = Some l \<and> g = (None, Some l)"
        by auto
    next
      assume "\<exists>l. ttyFormat (c # cs) = Some l \<and> g = (Some l, None)
            \<or> nonTtyFormat (c # cs) = Some l \<and> g = (None, Some l)"
      then obtain l where "ttyFormat (c # cs) = Some l \<and> g = (Some l, None)
            \<or> nonTtyFormat (c # cs) = Some l \<and> g = (None, Some l)" by blast
      then have "c # cs = [] @ (c # cs)
        \<and> (ttyFormat (c # cs) = Some l \<and> g = (Some l, None)
           \<or> nonTtyFormat (c # cs) = Some l \<and> g = (None, Some l))
        \<and> (\<forall>pre' s'. c # cs = pre' @ s' \<and> length pre' < length ([] :: jsstring) \<longrightarrow>
              ttyFormat s' = None \<and> nonTtyFormat s' = None)"
        by simp
      then show "?R (c # cs)" by blast
    qed
    with here show ?thesis by simp
  next
    case True
    then have step: "?L (c # cs) \<longleftrightarrow> ?L cs" by simp
    have "?R (c # cs) \<longleftrightarrow> ?R cs"
    proof
      assume "?R (c # cs)"
      then obtain pre s l where r: "c # cs = pre @ s"
        "ttyFormat s = Some l \<and> g = (Some l, None) \<or> nonTtyFormat s = Some l \<and> g = (None, Some l)"
        "\<forall>pre' s'. c # cs = pre' @ s' \<and> length pre' < length pre \<longrightarrow>
              ttyFormat s' = None \<and> nonTtyFormat s' = None"
        by blast
      from r(1,2) True have "pre \<noteq> []" by (cases pre) auto
      with r(1) obtain p where p: "pre = c # p" "cs = p @ s" by (cases pre) auto
      have "\<forall>pre' s'. cs = pre' @ s' \<and> length pre' < length p \<longrightarrow>
              ttyFormat s' = None \<and> nonTtyFormat s' = None"
      proof (intro allI impI)
        fix pre' s' assume "cs = pre' @ s' \<and> length pre' < length p"
        then have "c # cs = (c # pre') @ s' \<and> length (c # pre') < length pre"
          using p by simp
        with r(3) show "ttyFormat s' = None \<and> nonTtyFormat s' = None" by blast
      qed
      with p(2) r(2) show "?R cs" by blast
    next
      assume "?R cs"
      then obtain p s l where r: "cs = p @ s"
        "ttyFormat s = Some l \<and> g = (Some l, None) \<or> nonTtyFormat s = Some l \<and> g = (None, Some l)"
        "\<forall>pre' s'. cs = pre' @ s' \<and> length pre' < length p \<longrightarrow>
              ttyFormat s' = None \<and> nonTtyFormat s' = None"
        by blast
      have "\<forall>pre' s'. c # cs = pre' @ s' \<and> length pre' < length (c # p) \<longrightarrow>
              ttyFormat s' = None \<and> nonTtyFormat s' = None"
      proof (intro allI impI)
        fix pre' s' assume a: "c # cs = pre' @ s' \<and> length pre' < length (c # p)"
        show "ttyFormat s' = None \<and> nonTtyFormat s' = None"
        proof (cases pre')
          case Nil
          with a True show ?thesis by simp
        next
          case (Cons x q)
          with a have "cs = q @ s' \<and> length q < length p" by simp
          with r(3) show ?thesis by blast
        qed
      qed
      moreover have "c # cs = (c # p) @ s" using r(1) by simp
      ultimately show "?R (c # cs)" using r(2) by blast
    qed
    with step Cons.IH show ?thesis by simp
  qed
qed

lemma lineNumber_None_iff:
  "lineNumber line = None \<longleftrightarrow>
     (\<forall>pre s. line = pre @ s \<longrightarrow> ttyFormat s = None \<and> nonTtyFormat s = None)"
proof -
  have "lineNumber line = None \<longleftrightarrow> lineNumberMatch line = None"
  proof (cases "lineNumberMatch line")
    case None
    then show ?thesis by (simp add: lineNumber_def orElse_def parseInt_def)
  next
    case (Some g)
    then obtain l where l: "l \<noteq> []" "list_all isDigit l" "g = (Some l, None) \<or> g = (None, Some l)"
      unfolding lineNumberMatch_Some_iff ttyFormat_iff nonTtyFormat_iff by blast
    then have "lineNumber line = parseInt (Some l)"
      using Some by (auto simp: lineNumber_def orElse_def)
    with l(1,2) Some show ?thesis by (simp add: parseInt_digits)
  qed
  then show ?thesis by (simp add: lineNumberMatch_None_iff)
qed

lemma lineNumber_Some_iff:
  "lineNumber line = Some n \<longleftrightarrow>
     (\<exists>pre s l. line = pre @ s
        \<and> (ttyFormat s = Some l \<or> nonTtyFormat s = Some l)
        \<and> (\<forall>pre' s'. line = pre' @ s' \<and> length pre' < length pre \<longrightarrow>
              ttyFormat s' = None \<and> nonTtyFormat s' = None)
        \<and> parseInt (Some l) = Some n)"
proof
  assume a: "lineNumber line = Some n"
  then have "lineNumberMatch line \<noteq> None"
    by (cases "lineNumberMatch line") (auto simp: lineNumber_def orElse_def parseInt_def)
  then obtain g where g: "lineNumberMatch line = Some g" by blast
  then obtain pre s l where r: "line = pre @ s"
    "ttyFormat s = Some l \<and> g = (Some l, None) \<or> nonTtyFormat s = Some l \<and> g = (None, Some l)"
    "\<forall>pre' s'. line = pre' @ s' \<and> length pre' < length pre \<longrightarrow>
              ttyFormat s' = None \<and> nonTtyFormat s' = None"
    unfolding lineNumberMatch_Some_iff by blast
  from r(2) have "l \<noteq> []" unfolding ttyFormat_iff nonTtyFormat_iff by blast
  with r(2) g have "lineNumber line = parseInt (Some l)"
    by (auto simp: lineNumber_def orElse_def)
  with a r show "\<exists>pre s l. line = pre @ s
        \<and> (ttyFormat s = Some l \<or> nonTtyFormat s = Some l)
        \<and> (\<forall>pre' s'. line = pre' @ s' \<and> length pre' < length pre \<longrightarrow>
              ttyFormat s' = None \<and> nonTtyFormat s' = None)
        \<and> parseInt (Some l) = Some n"
    by metis
next
  assume "\<exists>pre s l. line = pre @ s
        \<and> (ttyFormat s = Some l \<or> nonTtyFormat s = Some l)
        \<and> (\<forall>pre' s'. line = pre' @ s' \<and> length pre' < length pre \<longrightarrow>
              ttyFormat s' = None \<and> nonTtyFormat s' = None)
        \<and> parseInt (Some l) = Some n"
  then obtain pre s l where r: "line = pre @ s"
    "ttyFormat s = Some l \<or> nonTtyFormat s = Some l"
    "\<forall>pre' s'. line = pre' @ s' \<and> length pre' < length pre \<longrightarrow>
              ttyFormat s' = None \<and> nonTtyFormat s' = None"
    "parseInt (Some l) = Some n"
    by blast
  define g where "g = (if ttyFormat s = Some l then (Some l, None) else (None, Some l))"
  have "ttyFormat s = Some l \<and> g = (Some l, None) \<or> nonTtyFormat s = Some l \<and> g = (None, Some l)"
    using r(2) by (auto simp: g_def)
  with r(1,3) have "lineNumberMatch line = Some g"
    unfolding lineNumberMatch_Some_iff by blast
  moreover from r(2) have "l \<noteq> []" unfolding ttyFormat_iff nonTtyFormat_iff by blast
  ultimately show "lineNumber line = Some n"
    using r(4) by (auto simp: lineNumber_def orElse_def g_def)
qed

lemma lineNumber_after:
  assumes "67 \<notin> set pre" "40 \<notin> set pre"
    and "ttyFormat s = Some l \<or> nonTtyFormat s = Some l"
  shows "lineNumber (pre @ s) = parseInt (Some l)"
proof -
  have l: "l \<noteq> []" "list_all isDigit l"
    using assms(3) unfolding ttyFormat_iff nonTtyFormat_iff by blast+
  obtain n where n: "parseInt (Some l) = Some n"
    using parseInt_digits[OF l] by blast
  have "ttyFormat s' = None \<and> nonTtyFormat s' = None"
    if "pre @ s = pre' @ s' \<and> length pre' < length pre" for pre' s'
  proof -
    from that obtain u where "pre = pre' @ u" "u \<noteq> []" "s' = u @ s"
      by (auto simp: append_eq_append_conv2)
    then have "s' \<noteq> []" "hd s' \<in> set pre" by (cases u; simp)+
    with assms(1,2) have "hd s' \<noteq> 67" "hd s' \<noteq> 40" by auto
    then show ?thesis
      using ttyFormat_hd[of s'] nonTtyFormat_hd[of s'] by (metis not_Some_eq)
  qed
  then have "\<forall>pre' s'. pre @ s = pre' @ s' \<and> length pre' < length pre \<longrightarrow>
              ttyFormat s' = None \<and> nonTtyFormat s' = None"
    by blast
  with assms(3) n have "lineNumber (pre @ s) = Some n"
    unfolding lineNumber_Some_iff by blast
  with n show ?thesis by simp
qed

lemma lineNumber_inside:
  assumes "67 \<notin> set p \<and> 40 \<notin> set p \<and> v < 2 ^ 53
        \<and> d \<noteq> [] \<and> list_all isDigit d \<and> d' \<noteq> [] \<and> list_all isDigit d'"
  shows "lineNumber (p @ js ''Code Block '' @ d @ js '':'' @ toString v @ js '':'' @ d' @ r)
          = Some (enat v)
      \<and> lineNumber (p @ js ''('' @ toString v @ js '','' @ d' @ js '')'' @ r) = Some (enat v)"
proof -
  have l: "toString v \<noteq> []" "list_all isDigit (toString v)"
    using toString_digits[of v] by (simp_all add: toString_not_empty list_all_iff)
  have n: "parseInt (Some (toString v)) = Some (enat v)"
    using assms parseInt_decimal[of v 0] by simp
  have "ttyFormat (js ''Code Block '' @ d @ js '':'' @ toString v @ js '':'' @ d' @ r) =
        Some (toString v)"
    unfolding ttyFormat_iff using assms l by blast
  then have 1: "lineNumber (p @ js ''Code Block '' @ d @ js '':'' @ toString v @ js '':'' @ d' @ r) =
        parseInt (Some (toString v))"
    using assms by (intro lineNumber_after) simp_all
  have "nonTtyFormat (js ''('' @ toString v @ js '','' @ d' @ js '')'' @ r) = Some (toString v)"
    unfolding nonTtyFormat_iff using assms l by blast
  then have 2: "lineNumber (p @ js ''('' @ toString v @ js '','' @ d' @ js '')'' @ r) =
        parseInt (Some (toString v))"
    using assms by (intro lineNumber_after) simp_all
  from 1 2 n show ?thesis by simp
qed

section \<open>The set of line numbers\<close>

lemma remdups_later: "x \<in> set zs \<Longrightarrow> remdups (ys @ x # zs) = remdups (ys @ zs)"
  by (induction ys) auto

lemma foldl_setAdd:
  "distinct acc \<Longrightarrow> foldl setAdd acc xs = rev (remdups (rev (acc @ xs)))"
proof (induction xs arbitrary: acc)
  case Nil
  then show ?case by (simp add: distinct_remdups_id)
next
  case (Cons x xs)
  have d: "distinct (setAdd acc x)" using Cons.prems by (simp add: setAdd_def)
  have "remdups (rev (setAdd acc x @ xs)) = remdups (rev (acc @ x # xs))"
    using remdups_later[of x "rev acc" "rev xs"] by (simp add: setAdd_def)
  with Cons.IH[OF d] show ?case by simp
qed

lemma errorLines_map_filter:
  "errorLines strip text =
     foldl setAdd [] (List.map_filter (\<lambda>m. lineNumber (strip m)) (splitOn 10 text))"
proof -
  have "foldl (\<lambda>acc m. case lineNumber (strip m) of None \<Rightarrow> acc | Some n \<Rightarrow> setAdd acc n) acc ms =
        foldl setAdd acc (List.map_filter (\<lambda>m. lineNumber (strip m)) ms)" for acc ms
    by (induction ms arbitrary: acc) (simp_all add: map_filter_simps split: option.splits)
  then show ?thesis by (simp add: errorLines_def)
qed

lemma errorLines_first_appearance:
  "errorLines strip text =
     rev (remdups (rev (List.map_filter (\<lambda>m. lineNumber (strip m)) (splitOn 10 text))))"
  by (simp add: errorLines_map_filter foldl_setAdd)

lemma errorLines_distinct: "distinct (errorLines strip text)"
  by (simp add: errorLines_first_appearance)

lemma errorLines_set:
  "set (errorLines strip text) = {n. \<exists>m \<in> set (splitOn 10 text). lineNumber (strip m) = Some n}"
  by (force simp: errorLines_first_appearance map_filter_def image_iff)

lemma testCodeCompilation_lines:
  "fst (compile env this k (sanitisedCode example) w) = Some rawError \<Longrightarrow>
   linesWithErrors (fst (testCodeCompilation env this k example w)) =
     (case kind (scrubError env example rawError) of
        TSError text enumerable \<Rightarrow> errorLines (stripAnsi env) text
      | OtherError \<Rightarrow> [])"
  by (auto simp: testCodeCompilation_def Let_def split: prod.splits option.splits)

lemma scrubError_kind:
  "kind (scrubError env example rawError) =
     (case kind (toError rawError) of
        TSError text enumerable \<Rightarrow>
          TSError (if enumerable then removeTemporaryFilePaths (chalkLevel env) text example
                   else text) enumerable
      | OtherError \<Rightarrow> OtherError)"
  by (simp add: scrubError_def scrubEntries_def Let_def)

lemma splitOn_not_empty: "splitOn sep s \<noteq> []"
  by (induction s) (auto split: list.splits)

lemma splitOn_no_separator: "sep \<notin> set s \<Longrightarrow> splitOn sep s = [s]"
  by (induction s) auto

lemma splitOn_append:
  "splitOn sep (a @ sep # b) = splitOn sep a @ splitOn sep b"
proof (induction a)
  case Nil
  then show ?case by simp
next
  case (Cons c a)
  obtain l ls where l: "splitOn sep a = l # ls"
    using splitOn_not_empty[of sep a] by (cases "splitOn sep a") auto
  with Cons show ?case by simp
qed

section \<open>The lines with errors\<close>

text \<open>
  C3 (as the code has it). When the compilation of a block throws, the \<^verbatim>\<open>linesWithErrors\<close>
  of its result is empty unless the error is a \<^verbatim>\<open>TSError\<close>; for a \<^verbatim>\<open>TSError\<close> it is made
  from the \<^verbatim>\<open>diagnosticText\<close> (after the replacement of the temporary file paths when that
  property is enumerable). The text is cut at its line feeds. A line gives a number exactly
  when one of the two formats occurs somewhere in it: the format that occurs first decides, and
  the number is the \<^verbatim>\<open>number\<close> that \<^verbatim>\<open>parseInt\<close> makes of its \<^verbatim>\<open>LINE\<close> digits, which is
  their decimal value below \<open>2^53\<close>. A line in which neither format occurs gives nothing. The
  numbers are listed without duplicates in the order in which they first appear in the text.

  The first format is \<^verbatim>\<open>Code Block\<close>, a space, digits, a colon, the \<^verbatim>\<open>LINE\<close> digits, a
  colon and digits; the second is an opening parenthesis, the \<^verbatim>\<open>LINE\<close> digits, a comma,
  digits and a closing parenthesis.
\<close>

theorem lines_with_errors_in_order_of_appearance:
  "(fst (compile env this k (sanitisedCode example) w) = Some rawError \<longrightarrow>
      linesWithErrors (fst (testCodeCompilation env this k example w)) =
        (case kind (toError rawError) of
           TSError text enumerable \<Rightarrow>
             errorLines (stripAnsi env)
               (if enumerable then removeTemporaryFilePaths (chalkLevel env) text example
                else text)
         | OtherError \<Rightarrow> []))
   \<and> errorLines strip text =
       rev (remdups (rev (List.map_filter (\<lambda>m. lineNumber (strip m)) (splitOn 10 text))))
   \<and> distinct (errorLines strip text)
   \<and> set (errorLines strip text) =
       {n. \<exists>m \<in> set (splitOn 10 text). lineNumber (strip m) = Some n}
   \<and> (10 \<notin> set a \<longrightarrow> splitOn 10 a = [a] \<and> splitOn 10 (a @ 10 # text) = a # splitOn 10 text)
   \<and> (lineNumber line = Some n \<longleftrightarrow>
        (\<exists>pre s l. line = pre @ s
           \<and> (ttyFormat s = Some l \<or> nonTtyFormat s = Some l)
           \<and> (\<forall>pre' s'. line = pre' @ s' \<and> length pre' < length pre \<longrightarrow>
                 ttyFormat s' = None \<and> nonTtyFormat s' = None)
           \<and> parseInt (Some l) = Some n))
   \<and> (lineNumber line = None \<longleftrightarrow>
        (\<forall>pre s. line = pre @ s \<longrightarrow> ttyFormat s = None \<and> nonTtyFormat s = None))
   \<and> (ttyFormat u = Some l \<longleftrightarrow>
        (\<exists>b c rest. b \<noteq> [] \<and> list_all isDigit b \<and> l \<noteq> [] \<and> list_all isDigit l
           \<and> c \<noteq> [] \<and> list_all isDigit c
           \<and> u = js ''Code Block '' @ b @ js '':'' @ l @ js '':'' @ c @ rest))
   \<and> (nonTtyFormat u = Some l \<longleftrightarrow>
        (\<exists>c rest. l \<noteq> [] \<and> list_all isDigit l \<and> c \<noteq> [] \<and> list_all isDigit c
           \<and> u = js ''('' @ l @ js '','' @ c @ js '')'' @ rest))
   \<and> (v < 2 ^ 53 \<longrightarrow> parseInt (Some (replicate z 48 @ toString v)) = Some (enat v))
   \<and> (67 \<notin> set p \<and> 40 \<notin> set p \<and> v < 2 ^ 53
        \<and> d \<noteq> [] \<and> list_all isDigit d \<and> d' \<noteq> [] \<and> list_all isDigit d' \<longrightarrow>
        lineNumber (p @ js ''Code Block '' @ d @ js '':'' @ toString v @ js '':'' @ d' @ r)
          = Some (enat v)
      \<and> lineNumber (p @ js ''('' @ toString v @ js '','' @ d' @ js '')'' @ r) = Some (enat v))"
proof -
  have c1: "fst (compile env this k (sanitisedCode example) w) = Some rawError \<longrightarrow>
      linesWithErrors (fst (testCodeCompilation env this k example w)) =
        (case kind (toError rawError) of
           TSError text enumerable \<Rightarrow>
             errorLines (stripAnsi env)
               (if enumerable then removeTemporaryFilePaths (chalkLevel env) text example
                else text)
         | OtherError \<Rightarrow> [])"
    using testCodeCompilation_lines[of env this k example w rawError]
    by (simp add: scrubError_kind split: error_kind.splits)
  have c5: "10 \<notin> set a \<longrightarrow>
            splitOn 10 a = [a] \<and> splitOn 10 (a @ 10 # text) = a # splitOn 10 text"
    by (simp add: splitOn_append splitOn_no_separator)
  have c10: "v < 2 ^ 53 \<longrightarrow> parseInt (Some (replicate z 48 @ toString v)) = Some (enat v)"
    by (simp add: parseInt_decimal)
  have c11: "67 \<notin> set p \<and> 40 \<notin> set p \<and> v < 2 ^ 53
        \<and> d \<noteq> [] \<and> list_all isDigit d \<and> d' \<noteq> [] \<and> list_all isDigit d' \<longrightarrow>
        lineNumber (p @ js ''Code Block '' @ d @ js '':'' @ toString v @ js '':'' @ d' @ r)
          = Some (enat v)
      \<and> lineNumber (p @ js ''('' @ toString v @ js '','' @ d' @ js '')'' @ r) = Some (enat v)"
    using lineNumber_inside[of p v d d' r] by blast
  show ?thesis
    by (intro conjI c1 c5 c10 c11 errorLines_first_appearance errorLines_distinct errorLines_set
          lineNumber_Some_iff lineNumber_None_iff ttyFormat_iff nonTtyFormat_iff)
qed

text \<open>
  A \<^verbatim>\<open>TSError\<close> whose text names line 5 before line 2: the result lists 5 before 2.
\<close>

definition unsortedText :: jsstring where
  "unsortedText = js ''(5,1): a'' @ [10] @ js ''(2,1): b''"

definition unsortedError :: js_error where
  "unsortedError = \<lparr>message = js ''bad'', kind = TSError unsortedText True, ownEnumerable = []\<rparr>"

definition unsortedEnv :: environment where
  "unsortedEnv = demoEnv\<lparr>compilerCompile := (\<lambda>code fileName. Some (ErrorObject unsortedError))\<rparr>"

definition firstBlock :: CodeBlock where
  "firstBlock = \<lparr>blockFile = js ''a.md'', index = 1, snippet = js ''x'', sanitisedCode = js ''// x''\<rparr>"

lemma unsorted_compile:
  "fst (compile unsortedEnv demoCompiler 0 (sanitisedCode firstBlock) emptyWorld) =
     Some (ErrorObject unsortedError)"
  by (simp add: compile_def fsExtra_writeFile_def unsortedEnv_def demo_fields Let_def)

lemma unsorted_text:
  "errorLines (stripAnsi unsortedEnv)
     (removeTemporaryFilePaths (chalkLevel unsortedEnv) unsortedText firstBlock) = [5, 2]"
proof -
  have "stripAnsi unsortedEnv = (\<lambda>s. s)" "chalkLevel unsortedEnv = 0"
    by (simp_all add: unsortedEnv_def demoEnv_def)
  then show ?thesis
    by (simp add: firstBlock_def unsortedText_def string_defs)
qed

theorem lines_with_errors_not_ascending:
  "linesWithErrors (fst (testCodeCompilation unsortedEnv demoCompiler 0 firstBlock emptyWorld)) = [5, 2]
   \<and> \<not> sorted (linesWithErrors
                  (fst (testCodeCompilation unsortedEnv demoCompiler 0 firstBlock emptyWorld)))"
proof -
  have "linesWithErrors (fst (testCodeCompilation unsortedEnv demoCompiler 0 firstBlock emptyWorld)) =
        errorLines (stripAnsi unsortedEnv)
          (removeTemporaryFilePaths (chalkLevel unsortedEnv) unsortedText firstBlock)"
    by (simp add: testCodeCompilation_lines[OF unsorted_compile] scrubError_kind toError_def
          unsortedError_def)
  then show ?thesis by (simp add: unsorted_text)
qed

theorem lines_with_errors_in_order_of_appearance_witness:
  "linesWithErrors (fst (testCodeCompilation unsortedEnv demoCompiler 0 firstBlock emptyWorld)) = [5, 2]
   \<and> lineNumber (js ''a.md '' @ [8594] @ js '' Code Block 2:7:1 - bad'') = Some 7
   \<and> lineNumber (js ''x.ts(5,1): a'') = Some 5
   \<and> parseInt (Some (js ''007'')) = Some 7
   \<and> splitOn 10 unsortedText = [js ''(5,1): a'', js ''(2,1): b'']
   \<and> lineNumber (js ''no position'') = None"
proof -
  note inst = lines_with_errors_in_order_of_appearance[of unsortedEnv demoCompiler 0 firstBlock
      emptyWorld "ErrorObject unsortedError" "\<lambda>s. s" "js ''(2,1): b''" "js ''(5,1): a''"
      "[]" 0 "[]" "[]" 7 2 "js ''a.md '' @ [8594] @ js '' ''" "js ''2''" "js ''1''"
      "js '' - bad''"]
  note inst' = lines_with_errors_in_order_of_appearance[of unsortedEnv demoCompiler 0 firstBlock
      emptyWorld "ErrorObject unsortedError" "\<lambda>s. s" "[]" "js ''(2,1): b''"
      "[]" 0 "[]" "[]" 5 0 "js ''x.ts''" "js ''1''" "js ''1''" "js '': a''"]
  have "linesWithErrors (fst (testCodeCompilation unsortedEnv demoCompiler 0 firstBlock emptyWorld)) =
        errorLines (stripAnsi unsortedEnv)
          (removeTemporaryFilePaths (chalkLevel unsortedEnv) unsortedText firstBlock)"
    using inst unsorted_compile by (simp add: toError_def unsortedError_def)
  then have 1: "linesWithErrors
      (fst (testCodeCompilation unsortedEnv demoCompiler 0 firstBlock emptyWorld)) = [5, 2]"
    by (simp only: unsorted_text)
  have d: "list_all isDigit (js ''2'')" "list_all isDigit (js ''1'')" "js ''2'' \<noteq> []"
    "js ''1'' \<noteq> []"
    by (simp_all add: js_def isDigit_def)
  have p: "67 \<notin> set (js ''a.md '' @ [8594] @ js '' '')" "40 \<notin> set (js ''a.md '' @ [8594] @ js '' '')"
    "67 \<notin> set (js ''x.ts'')" "40 \<notin> set (js ''x.ts'')" "(7::nat) < 2 ^ 53" "(5::nat) < 2 ^ 53"
    by (simp_all add: js_def)
  have e: "(js ''a.md '' @ [8594] @ js '' '') @ js ''Code Block '' @ js ''2'' @ js '':'' @
           toString 7 @ js '':'' @ js ''1'' @ js '' - bad'' =
           js ''a.md '' @ [8594] @ js '' Code Block 2:7:1 - bad''"
    "js ''x.ts'' @ js ''('' @ toString 5 @ js '','' @ js ''1'' @ js '')'' @ js '': a'' =
     js ''x.ts(5,1): a''"
    "replicate 2 48 @ toString 7 = js ''007''"
    "js ''(5,1): a'' @ 10 # js ''(2,1): b'' = unsortedText"
    by (simp_all add: toString.simps js_def unsortedText_def numeral_2_eq_2)
  from inst d p have "lineNumber ((js ''a.md '' @ [8594] @ js '' '') @ js ''Code Block '' @ js ''2'' @
           js '':'' @ toString 7 @ js '':'' @ js ''1'' @ js '' - bad'') = Some (enat 7)"
    by blast
  then have 2: "lineNumber (js ''a.md '' @ [8594] @ js '' Code Block 2:7:1 - bad'') = Some 7"
    by (simp only: e enat_numeral)
  from inst' d p have "lineNumber (js ''x.ts'' @ js ''('' @ toString 5 @ js '','' @ js ''1'' @
           js '')'' @ js '': a'') = Some (enat 5)"
    by blast
  then have 3: "lineNumber (js ''x.ts(5,1): a'') = Some 5"
    by (simp only: e enat_numeral)
  from inst p have "parseInt (Some (replicate 2 48 @ toString 7)) = Some (enat 7)"
    by blast
  then have 4: "parseInt (Some (js ''007'')) = Some 7"
    by (simp only: e enat_numeral)
  have "10 \<notin> set (js ''(5,1): a'')" "10 \<notin> set (js ''(2,1): b'')"
    by (simp_all add: js_def)
  with inst inst' have "splitOn 10 (js ''(5,1): a'' @ 10 # js ''(2,1): b'') =
      [js ''(5,1): a'', js ''(2,1): b'']"
    by simp
  then have 5: "splitOn 10 unsortedText = [js ''(5,1): a'', js ''(2,1): b'']"
    by (simp only: e)
  have 6: "lineNumber (js ''no position'') = None"
    by (simp add: string_defs)
  from 1 2 3 4 5 6 show ?thesis by blast
qed

section \<open>Temporary file names\<close>

lemma toString_inj: "toString a = toString b \<Longrightarrow> a = b"
  by (metis digitsValue_toString)

lemma joinWith_snoc:
  "joinWith sep (xs @ [x]) = (if xs = [] then x else joinWith sep xs @ sep # x)"
  by (induction sep xs rule: joinWith.induct) auto

text \<open>
  What \<^verbatim>\<open>path.join\<close> puts in front of a last argument that is a plain file name.
\<close>

definition directoryPrefix :: "jsstring \<Rightarrow> jsstring" where
  "directoryPrefix a =
     (let absolute = (a \<noteq> [] \<and> hd a = 47);
          res = (if a = [] then [] else foldl (normalizeStep (\<not> absolute)) [] (splitOn 47 a))
      in (if absolute then [47] else []) @ (if res = [] then [] else joinWith 47 res @ [47]))"

lemma path_join_file_name:
  assumes "name \<noteq> []" "47 \<notin> set name" "name \<noteq> js ''.''" "name \<noteq> js ''..''"
  shows "path_join a name = directoryPrefix a @ name"
proof (cases "a = []")
  case True
  have "hd name \<noteq> 47" "last name \<noteq> 47"
    using assms(1,2) by (metis hd_in_set, metis last_in_set)
  with True assms show ?thesis
    by (simp add: path_join_def normalize_def normalizeString_def splitOn_no_separator
          normalizeStep_def directoryPrefix_def Let_def)
next
  case False
  let ?joined = "a @ 47 # name"
  have hd: "hd ?joined = hd a" using False by simp
  have "last name \<noteq> 47"
    using assms(1,2) by (metis last_in_set)
  then have last: "last ?joined \<noteq> 47"
    using assms(1) by simp
  have split: "splitOn 47 ?joined = splitOn 47 a @ [name]"
    using assms(2) by (simp add: splitOn_append splitOn_no_separator)
  have step: "foldl (normalizeStep allow) [] (splitOn 47 ?joined) =
              foldl (normalizeStep allow) [] (splitOn 47 a) @ [name]" for allow
    using assms by (simp add: split normalizeStep_def)
  have "normalizeString ?joined allow =
        (if foldl (normalizeStep allow) [] (splitOn 47 a) = [] then name
         else joinWith 47 (foldl (normalizeStep allow) [] (splitOn 47 a)) @ 47 # name)" for allow
    unfolding normalizeString_def step by (rule joinWith_snoc)
  with False assms(1) hd last show ?thesis
    by (simp add: path_join_def normalize_def directoryPrefix_def Let_def)
qed

lemma block_file_name:
  "js ''block-'' @ toString n @ js ''.ts'' \<noteq> []"
  "47 \<notin> set (js ''block-'' @ toString n @ js ''.ts'')"
  "js ''block-'' @ toString n @ js ''.ts'' \<noteq> js ''.''"
  "js ''block-'' @ toString n @ js ''.ts'' \<noteq> js ''..''"
proof -
  have "47 \<notin> set (toString n)"
    using toString_digits[of n] by (auto simp: isDigit_def)
  then show "47 \<notin> set (js ''block-'' @ toString n @ js ''.ts'')"
    by (simp add: js_def)
qed (simp_all add: js_def)

lemma codeFileName_eq:
  "codeFileName env this k =
     directoryPrefix (workingDirectory this) @ js ''block-'' @ toString (hrtime env k) @ js ''.ts''"
  unfolding codeFileName_def by (rule path_join_file_name) (rule block_file_name)+

lemma codeFileName_inj:
  "codeFileName env this i = codeFileName env this j \<longleftrightarrow> hrtime env i = hrtime env j"
  by (auto simp: codeFileName_eq dest: toString_inj)

text \<open>
  C9 (as the code has it). The temporary file of the block at position \<open>k\<close> of a run is
  \<^verbatim>\<open>block-<id>.ts\<close> in the working directory, with the \<open>k\<close>-th reading of the clock in decimal
  digits as its \<^verbatim>\<open>id\<close>, and it is the file that the compilation of that block writes. So two
  blocks of a run get the same file exactly when they get the same reading of the clock, and
  the files of the first \<open>n\<close> blocks are pairwise different exactly when their readings are.
\<close>

theorem temporary_file_names_follow_clock:
  "(codeFileName env this j = codeFileName env this k \<longleftrightarrow> hrtime env j = hrtime env k)
   \<and> (distinct (map (codeFileName env this) [0..<n]) \<longleftrightarrow> distinct (map (hrtime env) [0..<n]))
   \<and> codeFileName env this k =
       directoryPrefix (workingDirectory this) @
       js ''block-'' @ toString (hrtime env k) @ js ''.ts''
   \<and> (fault env (WriteFile (codeFileName env this k)) = None \<longrightarrow>
        tempFiles (snd (compile env this k code w)) =
          (codeFileName env this k, code) # tempFiles w)"
proof -
  have "inj_on (codeFileName env this) (set [0..<n]) \<longleftrightarrow> inj_on (hrtime env) (set [0..<n])"
    by (simp add: inj_on_def codeFileName_inj)
  then have "distinct (map (codeFileName env this) [0..<n]) \<longleftrightarrow>
             distinct (map (hrtime env) [0..<n])"
    by (simp only: distinct_map)
  then show ?thesis
    by (simp add: codeFileName_inj codeFileName_eq[symmetric] compile_def fsExtra_writeFile_def
          Let_def)
qed

theorem temporary_file_names_follow_clock_witness:
  "map (codeFileName demoEnv demoCompiler) [0..<3] =
       [js ''/compiled-docs/block-10.ts'', js ''/compiled-docs/block-11.ts'',
        js ''/compiled-docs/block-12.ts'']
   \<and> distinct (map (hrtime demoEnv) [0..<3])
   \<and> distinct (map (codeFileName demoEnv demoCompiler) [0..<3])
   \<and> tempFiles (snd (compile demoEnv demoCompiler 1 (js ''// y'') emptyWorld)) =
       [(js ''/compiled-docs/block-11.ts'', js ''// y'')]"
proof -
  have h: "hrtime demoEnv = (\<lambda>k. 10 + k)" by (simp add: demoEnv_def)
  have d: "distinct (map (hrtime demoEnv) [0..<3])" by (simp add: h upt_rec)
  have names: "map (codeFileName demoEnv demoCompiler) [0..<3] =
       [js ''/compiled-docs/block-10.ts'', js ''/compiled-docs/block-11.ts'',
        js ''/compiled-docs/block-12.ts'']"
    by (simp add: codeFileName_def h demoCompiler_def path_defs upt_rec)
  note inst = temporary_file_names_follow_clock[of demoEnv demoCompiler 0 1 3 "js ''// y''"
      emptyWorld]
  have f: "fault demoEnv (WriteFile (codeFileName demoEnv demoCompiler 1)) = None"
    by (simp add: demo_fields)
  from inst d have 1: "distinct (map (codeFileName demoEnv demoCompiler) [0..<3])"
    by blast
  from inst f have "tempFiles (snd (compile demoEnv demoCompiler 1 (js ''// y'') emptyWorld)) =
      (codeFileName demoEnv demoCompiler 1, js ''// y'') # tempFiles emptyWorld"
    by blast
  then have 2: "tempFiles (snd (compile demoEnv demoCompiler 1 (js ''// y'') emptyWorld)) =
      [(js ''/compiled-docs/block-11.ts'', js ''// y'')]"
    using demo_codeFileName by (simp add: emptyWorld_def)
  from names d 1 2 show ?thesis by blast
qed

text \<open>
  An environment whose clock gives the same reading twice (and in which every compilation
  succeeds): the two blocks of \<^verbatim>\<open>a.md\<close> get the same temporary file, both are written to it,
  and the run goes on to its results.
\<close>

definition stoppedClockEnv :: environment where
  "stoppedClockEnv = demoEnv\<lparr>hrtime := (\<lambda>k. 7), compilerCompile := (\<lambda>code fileName. None)\<rparr>"

theorem same_reading_same_file:
  "codeFileName stoppedClockEnv demoCompiler 0 = js ''/compiled-docs/block-7.ts''
   \<and> codeFileName stoppedClockEnv demoCompiler 1 = js ''/compiled-docs/block-7.ts''
   \<and> compileSnippetsTry stoppedClockEnv demoCompiler [] [] [js ''a.md''] emptyWorld =
       (Inr [\<lparr>resultFile = js ''a.md'', resultIndex = 1, resultSnippet = js ''x'',
              linesWithErrors = [], error = None\<rparr>,
             \<lparr>resultFile = js ''a.md'', resultIndex = 2, resultSnippet = js ''y'',
              linesWithErrors = [], error = None\<rparr>],
        \<lparr>directoryPresent = True,
         tempFiles = [(js ''/compiled-docs/block-7.ts'', js ''// y''),
                      (js ''/compiled-docs/block-7.ts'', js ''// x'')]\<rparr>)"
proof -
  have name: "codeFileName stoppedClockEnv demoCompiler k = js ''/compiled-docs/block-7.ts''" for k
    by (simp add: codeFileName_def stoppedClockEnv_def demoCompiler_def path_defs)
  have blocks: "extractAllCodeBlocks stoppedClockEnv [] [js ''a.md''] =
      Inr [\<lparr>blockFile = js ''a.md'', index = 1, snippet = js ''x'', sanitisedCode = js ''// x''\<rparr>,
           \<lparr>blockFile = js ''a.md'', index = 2, snippet = js ''y'', sanitisedCode = js ''// y''\<rparr>]"
    by (simp add: extractAllCodeBlocks_def promiseAll.simps nextChoice_def
          extractFileCodeBlocks_def sanitiseCodeBlock_def stoppedClockEnv_def demoEnv_def js_def)
  have test: "testCodeCompilation stoppedClockEnv demoCompiler k example w =
      (\<lparr>resultFile = blockFile example, resultIndex = index example,
        resultSnippet = snippet example, linesWithErrors = [], error = None\<rparr>,
       w\<lparr>tempFiles := (js ''/compiled-docs/block-7.ts'', sanitisedCode example) # tempFiles w\<rparr>)"
    for k example w
    by (simp add: testCodeCompilation_def compile_def fsExtra_writeFile_def name Let_def)
       (simp add: stoppedClockEnv_def demoEnv_def)
  have ok: "fault stoppedClockEnv = (\<lambda>c. None)"
    by (simp add: stoppedClockEnv_def demoEnv_def)
  have "compileSnippetsTry stoppedClockEnv demoCompiler [] [] [js ''a.md''] emptyWorld =
       (Inr [\<lparr>resultFile = js ''a.md'', resultIndex = 1, resultSnippet = js ''x'',
              linesWithErrors = [], error = None\<rparr>,
             \<lparr>resultFile = js ''a.md'', resultIndex = 2, resultSnippet = js ''y'',
              linesWithErrors = [], error = None\<rparr>],
        \<lparr>directoryPresent = True,
         tempFiles = [(js ''/compiled-docs/block-7.ts'', js ''// y''),
                      (js ''/compiled-docs/block-7.ts'', js ''// x'')]\<rparr>)"
    by (simp add: compileSnippetsTry_def cleanWorkingDirectory_def fsExtra_remove_def
          fsExtra_ensureDir_def ok blocks test promiseAll.simps nextChoice_def emptyWorld_def)
  with name show ?thesis by simp
qed

section \<open>Temporary file paths in a text\<close>




lemma tempFileTail_Nil [simp]: "tempFileTail [] = None"
  by (simp add: tempFileTail_def js_def)














lemma replaceAll_Nil [simp]: "replaceAll tpl pre [] = []"
  by (subst replaceAll.simps) simp






section \<open>The label\<close>









section \<open>The scrubbed error\<close>









section \<open>The import localiser\<close>

text \<open>
  Modelled from the spec: \<^verbatim>\<open>LocalImportSubstituter.substituteLocalPackageImports\<close>, whose
  file \<^verbatim>\<open>LocalImportSubstituter.ts\<close> is not among the sources (\<^verbatim>\<open>SnippetCompiler.ts\<close> only
  imports it). The spec speaks of the import references of a block and of their module
  specifiers, so a block is modelled as a sequence of parts, each a piece of other text or the
  module specifier of an import reference. The localiser knows the declared name of the
  package, the reference to the local entry point, and how a sub-path is resolved against the
  package root. A specifier equal to the name is replaced by the reference to the entry point,
  a specifier that is the name followed by \<^verbatim>\<open>/\<close> and a sub-path by the resolved sub-path, and
  everything else is kept.
\<close>

datatype codePart = OtherText jsstring | ImportSpecifier jsstring

record LocalImportSubstituter =
  packageName :: jsstring
  localEntryPoint :: jsstring
  localSubPath :: "jsstring \<Rightarrow> jsstring"

definition localiseSpecifier :: "LocalImportSubstituter \<Rightarrow> jsstring \<Rightarrow> jsstring" where
  "localiseSpecifier l specifier =
     (if specifier = packageName l then localEntryPoint l
      else (case stripPrefix (packageName l @ js ''/'') specifier of
              Some subPath \<Rightarrow> localSubPath l subPath
            | None \<Rightarrow> specifier))"

definition specSubstituteLocalPackageImports ::
  "LocalImportSubstituter \<Rightarrow> codePart list \<Rightarrow> codePart list" where
  "specSubstituteLocalPackageImports l code =
     map (\<lambda>part. case part of
                    OtherText s \<Rightarrow> OtherText s
                  | ImportSpecifier m \<Rightarrow> ImportSpecifier (localiseSpecifier l m))
       code"

text \<open>Whether a part is an import of the package: of its name, or of a sub-path of it.\<close>

definition importsPackage :: "LocalImportSubstituter \<Rightarrow> codePart \<Rightarrow> bool" where
  "importsPackage l part =
     (case part of
        OtherText s \<Rightarrow> False
      | ImportSpecifier m \<Rightarrow> m = packageName l \<or> prefix (packageName l @ js ''/'') m)"

text \<open>
  C8. The localiser rewrites a module specifier only when it is the declared name of the
  package or that name followed by \<^verbatim>\<open>/\<close> and a sub-path: the first becomes the reference to
  the local entry point, the second the resolved sub-path. A specifier that goes on after the
  name with anything but a \<^verbatim>\<open>/\<close> is kept, and a block without an import of the package comes
  back unchanged. \<^verbatim>\<open>sanitiseCodeBlock\<close> is the substitution and nothing else.
\<close>

theorem only_package_imports_are_localised:
  "(specifier \<noteq> packageName l \<and> \<not> prefix (packageName l @ js ''/'') specifier \<longrightarrow>
      localiseSpecifier l specifier = specifier)
   \<and> localiseSpecifier l (packageName l) = localEntryPoint l
   \<and> localiseSpecifier l (packageName l @ js ''/'' @ subPath) = localSubPath l subPath
   \<and> (extra \<noteq> [] \<and> hd extra \<noteq> 47 \<longrightarrow>
        localiseSpecifier l (packageName l @ extra) = packageName l @ extra)
   \<and> (\<not> list_ex (importsPackage l) code \<longrightarrow> specSubstituteLocalPackageImports l code = code)
   \<and> sanitiseCodeBlock env block = substituteLocalPackageImports env block"
proof -
  have slash: "js ''/'' = [47]" by (simp add: js_def)
  have keep: "localiseSpecifier l specifier = specifier"
    if "specifier \<noteq> packageName l" "\<not> prefix (packageName l @ js ''/'') specifier" for specifier
    using that by (simp add: localiseSpecifier_def stripPrefix_None[symmetric])
  have "stripPrefix (packageName l @ [47]) (packageName l @ 47 # subPath) = Some subPath"
    using stripPrefix_append[of "packageName l @ [47]" subPath] by simp
  then have sub: "localiseSpecifier l (packageName l @ js ''/'' @ subPath) = localSubPath l subPath"
    by (simp add: localiseSpecifier_def slash)
  have other: "localiseSpecifier l (packageName l @ extra) = packageName l @ extra"
    if "extra \<noteq> []" "hd extra \<noteq> 47"
  proof (rule keep)
    show "packageName l @ extra \<noteq> packageName l" using that(1) by simp
    show "\<not> prefix (packageName l @ js ''/'') (packageName l @ extra)"
      using that by (cases extra) (auto simp: slash)
  qed
  have code: "specSubstituteLocalPackageImports l code = code" if "\<not> list_ex (importsPackage l) code"
  proof -
    have "(case part of OtherText s \<Rightarrow> OtherText s
           | ImportSpecifier m \<Rightarrow> ImportSpecifier (localiseSpecifier l m)) = part"
      if "part \<in> set code" for part
    proof -
      have "\<not> importsPackage l part"
        using that \<open>\<not> list_ex (importsPackage l) code\<close> by (auto simp: list_ex_iff)
      then show ?thesis
        by (cases part) (simp_all add: importsPackage_def keep)
    qed
    then show ?thesis
      by (simp add: specSubstituteLocalPackageImports_def map_idI)
  qed
  show ?thesis
    using keep[of specifier] sub other code
    by (simp add: localiseSpecifier_def sanitiseCodeBlock_def)
qed

definition myPackage :: LocalImportSubstituter where
  "myPackage =
     \<lparr>packageName = js ''@org/my-pkg'', localEntryPoint = js ''./src/index'',
      localSubPath = (\<lambda>subPath. js ''./'' @ subPath)\<rparr>"

theorem only_package_imports_are_localised_witness:
  "specSubstituteLocalPackageImports myPackage
     [OtherText (js ''import a from ''), ImportSpecifier (js ''@org/my-pkg''),
      ImportSpecifier (js ''@org/my-pkg/lib/util''), ImportSpecifier (js ''@org/my-pkg-extra'')] =
     [OtherText (js ''import a from ''), ImportSpecifier (js ''./src/index''),
      ImportSpecifier (js ''./lib/util''), ImportSpecifier (js ''@org/my-pkg-extra'')]
   \<and> \<not> list_ex (importsPackage myPackage)
         [OtherText (js ''const x = 1''), ImportSpecifier (js ''@org/my-pkg-extra'')]
   \<and> specSubstituteLocalPackageImports myPackage
       [OtherText (js ''const x = 1''), ImportSpecifier (js ''@org/my-pkg-extra'')] =
       [OtherText (js ''const x = 1''), ImportSpecifier (js ''@org/my-pkg-extra'')]"
proof -
  have n: "packageName myPackage = js ''@org/my-pkg''"
    "localEntryPoint myPackage = js ''./src/index''"
    "localSubPath myPackage (js ''lib/util'') = js ''./lib/util''"
    by (simp_all add: myPackage_def js_def)
  have e: "js ''@org/my-pkg-extra'' = packageName myPackage @ js ''-extra''"
    "js ''@org/my-pkg/lib/util'' = packageName myPackage @ js ''/'' @ js ''lib/util''"
    by (simp_all add: myPackage_def js_def)
  have x: "js ''-extra'' \<noteq> [] \<and> hd (js ''-extra'') \<noteq> 47"
    by (simp add: js_def)
  note inst = only_package_imports_are_localised[of _ myPackage "js ''lib/util''" "js ''-extra''"
      "[OtherText (js ''const x = 1''), ImportSpecifier (js ''@org/my-pkg-extra'')]"]
  have 1: "localiseSpecifier myPackage (js ''@org/my-pkg'') = js ''./src/index''"
    using inst n by metis
  have 2: "localiseSpecifier myPackage (js ''@org/my-pkg/lib/util'') = js ''./lib/util''"
    using inst n e(2) by metis
  have 3: "localiseSpecifier myPackage (js ''@org/my-pkg-extra'') = js ''@org/my-pkg-extra''"
    using inst x e(1) by metis
  have 4: "\<not> list_ex (importsPackage myPackage)
         [OtherText (js ''const x = 1''), ImportSpecifier (js ''@org/my-pkg-extra'')]"
    by (simp add: importsPackage_def myPackage_def js_def)
  have 5: "specSubstituteLocalPackageImports myPackage
       [OtherText (js ''const x = 1''), ImportSpecifier (js ''@org/my-pkg-extra'')] =
       [OtherText (js ''const x = 1''), ImportSpecifier (js ''@org/my-pkg-extra'')]"
    using inst 4 by blast
  show ?thesis
    using 4 5 by (simp add: specSubstituteLocalPackageImports_def 1 2 3)
qed

end
